theory Spec2Isabelle
  imports Complex_Main "HOL-Library.Sublist"
begin

section \<open>Values shared by the batcher and the runner\<close>

text \<open>
  A value caught by a \<^verbatim>\<open>catch\<close> clause has the TypeScript type \<^verbatim>\<open>unknown\<close>.
  The model keeps of it what the two type guards of \<^verbatim>\<open>index.ts\<close> inspect: whether
  it is a non-null object, its \<^verbatim>\<open>name\<close> property when that is a string, its
  \<^verbatim>\<open>signature\<close> property when present, and its \<^verbatim>\<open>message\<close> property when that
  is a string.
\<close>

datatype thrown =
    Primitive
  | Object (err_name: "string option") (err_signature: "string option") (err_message: "string option")

record Drop =
  owner :: string
  address :: string

section \<open>JavaScript numbers\<close>

text \<open>
  A number is an IEEE 754 double: a finite value, kept as the rational it stands for, an
  infinity or \<^verbatim>\<open>NaN\<close>. The two zeros are one value here; they differ only under a
  division, and no number of this type is divided.
\<close>

datatype double = Number rat | PlusInfinity | MinusInfinity | NotANumber

definition pow2 :: "int \<Rightarrow> rat" where
  "pow2 k = (if 0 \<le> k then 2 ^ nat k else 1 / 2 ^ nat (- k))"

text \<open>The number of binary digits of a positive integer.\<close>

function bits :: "int \<Rightarrow> int" where
  "bits n = (if n \<le> 0 then 0 else bits (n div 2) + 1)"
  by pat_completeness auto
termination
  by (relation "measure nat") auto

declare bits.simps [simp del]

text \<open>For \<open>a > 0\<close>, the exponent \<open>k\<close> with \<open>2 ^ k \<le> a < 2 ^ (k + 1)\<close>.\<close>

definition ilog2 :: "rat \<Rightarrow> int" where
  "ilog2 a =
     (if 1 \<le> a then bits \<lfloor>a\<rfloor> - 1
      else - bits (\<lceil>1 / a\<rceil> - 1))"

definition roundHalfEven :: "rat \<Rightarrow> int" where
  "roundHalfEven q =
     (if q - of_int \<lfloor>q\<rfloor> < 1 / 2 then \<lfloor>q\<rfloor>
      else if 1 / 2 < q - of_int \<lfloor>q\<rfloor> then \<lfloor>q\<rfloor> + 1
      else if even \<lfloor>q\<rfloor> then \<lfloor>q\<rfloor> else \<lfloor>q\<rfloor> + 1)"

text \<open>
  Rounding to the nearest double, ties to the even significand: 53 binary digits, or
  fewer below \<open>2 ^ -1022\<close>, where the spacing stays \<open>2 ^ -1074\<close>; a magnitude that rounds
  to \<open>2 ^ 1024\<close> or more is an infinity.
\<close>

definition roundMagnitude :: "rat \<Rightarrow> rat" where
  "roundMagnitude a =
     of_int (roundHalfEven (a / pow2 (max (ilog2 a - 52) (- 1074))))
       * pow2 (max (ilog2 a - 52) (- 1074))"

definition roundDouble :: "rat \<Rightarrow> double" where
  "roundDouble q =
     (if q = 0 then Number 0
      else if pow2 1024 \<le> roundMagnitude \<bar>q\<bar>
        then (if 0 < q then PlusInfinity else MinusInfinity)
      else Number (if 0 < q then roundMagnitude \<bar>q\<bar> else - roundMagnitude \<bar>q\<bar>))"

text \<open>The operator \<^verbatim>\<open>*\<close> on numbers.\<close>

fun multiply :: "double \<Rightarrow> double \<Rightarrow> double" where
  "multiply NotANumber y = NotANumber"
| "multiply x NotANumber = NotANumber"
| "multiply (Number a) (Number b) = roundDouble (a * b)"
| "multiply (Number a) PlusInfinity =
     (if a = 0 then NotANumber else if 0 < a then PlusInfinity else MinusInfinity)"
| "multiply (Number a) MinusInfinity =
     (if a = 0 then NotANumber else if 0 < a then MinusInfinity else PlusInfinity)"
| "multiply PlusInfinity (Number b) =
     (if b = 0 then NotANumber else if 0 < b then PlusInfinity else MinusInfinity)"
| "multiply MinusInfinity (Number b) =
     (if b = 0 then NotANumber else if 0 < b then MinusInfinity else PlusInfinity)"
| "multiply PlusInfinity PlusInfinity = PlusInfinity"
| "multiply PlusInfinity MinusInfinity = MinusInfinity"
| "multiply MinusInfinity PlusInfinity = MinusInfinity"
| "multiply MinusInfinity MinusInfinity = PlusInfinity"

section \<open>Transactions\<close>

text \<open>
  The object handed to \<^verbatim>\<open>SystemProgram.transfer\<close>. The instruction the library makes of it
  is of a type \<open>'ins\<close> of the library's, and a transaction holds a list of them.
\<close>

record 'pk TransferParams =
  fromPubkey :: 'pk
  toPubkey :: 'pk
  lamports :: double

record 'ins Transaction =
  instructions :: "'ins list"
  recentBlockhash :: "string option"

definition newTransaction :: "'ins Transaction" where
  "newTransaction = \<lparr>instructions = [], recentBlockhash = None\<rparr>"

definition add :: "'ins Transaction \<Rightarrow> 'ins \<Rightarrow> 'ins Transaction" where
  "add tx ins = tx\<lparr>instructions := instructions tx @ [ins]\<rparr>"

section \<open>generateTransactions\<close>

text \<open>
  \<^verbatim>\<open>dropList.map(drop => SystemProgram.transfer({...}))\<close>. The constructor
  \<^verbatim>\<open>new PublicKey(drop.owner)\<close> and \<^verbatim>\<open>SystemProgram.transfer\<close> belong to the ledger
  client library and may throw, the first on a string that is not a key, the second on
  lamports it cannot encode: they are the parameters \<open>PublicKey\<close> and \<open>transfer\<close>, and the
  first throw ends the map. \<^verbatim>\<open>LAMPORTS_PER_SOL\<close> is the library's constant, a parameter as
  well. \<open>amount\<close> is any number, and the lamports are the product as \<^verbatim>\<open>*\<close> computes it.
\<close>

fun mapTransfer ::
  "(string \<Rightarrow> thrown + 'pk) \<Rightarrow> ('pk TransferParams \<Rightarrow> thrown + 'ins) \<Rightarrow> double \<Rightarrow> 'pk
    \<Rightarrow> double \<Rightarrow> Drop list \<Rightarrow> thrown + 'ins list" where
  "mapTransfer PublicKey transfer LAMPORTS_PER_SOL fromWallet amount [] = Inr []"
| "mapTransfer PublicKey transfer LAMPORTS_PER_SOL fromWallet amount (drop' # dropList) =
     (case PublicKey (owner drop') of
        Inl e \<Rightarrow> Inl e
      | Inr key \<Rightarrow>
          (case transfer \<lparr>fromPubkey = fromWallet, toPubkey = key,
                  lamports = multiply amount LAMPORTS_PER_SOL\<rparr> of
             Inl e \<Rightarrow> Inl e
           | Inr ins \<Rightarrow>
               (case mapTransfer PublicKey transfer LAMPORTS_PER_SOL fromWallet amount dropList of
                  Inl e \<Rightarrow> Inl e
                | Inr rest \<Rightarrow> Inr (ins # rest))))"

text \<open>
  \<^verbatim>\<open>Math.ceil(txInstructions.length / batchSize)\<close> for an integer \<open>batchSize\<close>:
  a division by zero gives \<^verbatim>\<open>Infinity\<close> (or \<^verbatim>\<open>NaN\<close> for \<^verbatim>\<open>0 / 0\<close>), any other
  quotient is rounded up.
\<close>

datatype number = Finite int | PosInfinity | NaN

definition ceilDiv :: "nat \<Rightarrow> int \<Rightarrow> number" where
  "ceilDiv len batchSize =
     (if batchSize = 0 then (if len = 0 then NaN else PosInfinity)
      else Finite \<lceil>real len / real_of_int batchSize\<rceil>)"

text \<open>The loop test \<^verbatim>\<open>i < numTransactions\<close>; every comparison with \<^verbatim>\<open>NaN\<close> is false.\<close>

fun lessNumber :: "int \<Rightarrow> number \<Rightarrow> bool" where
  "lessNumber i (Finite n) = (i < n)"
| "lessNumber i PosInfinity = True"
| "lessNumber i NaN = False"

text \<open>\<^verbatim>\<open>txInstructions[j]\<close>: \<^verbatim>\<open>undefined\<close> outside the array.\<close>

definition element :: "'a list \<Rightarrow> int \<Rightarrow> 'a option" where
  "element xs j = (if 0 \<le> j \<and> j < int (length xs) then Some (xs ! nat j) else None)"

text \<open>
  The inner loop \<^verbatim>\<open>for (let j = lowerIndex; j < upperIndex; j++)\<close>, with
  \<^verbatim>\<open>if (txInstructions[j]) bulkTransaction.add(txInstructions[j])\<close>: an instruction
  object is truthy, \<^verbatim>\<open>undefined\<close> is not.
\<close>

function innerLoop ::
  "'ins list \<Rightarrow> int \<Rightarrow> int \<Rightarrow> 'ins Transaction \<Rightarrow> 'ins Transaction" where
  "innerLoop txInstructions upperIndex j bulkTransaction =
     (if j < upperIndex then
        innerLoop txInstructions upperIndex (j + 1)
          (case element txInstructions j of
             Some ins \<Rightarrow> add bulkTransaction ins
           | None \<Rightarrow> bulkTransaction)
      else bulkTransaction)"
  by pat_completeness auto
termination
  by (relation "measure (\<lambda>(txInstructions, upperIndex, j, bulkTransaction). nat (upperIndex - j))") auto

declare innerLoop.simps [simp del]

text \<open>
  The outer loop \<^verbatim>\<open>for (let i = 0; i < numTransactions; i++)\<close>. With
  \<open>numTransactions = PosInfinity\<close> it never ends: the result \<open>None\<close> stands for a call
  that does not return (the limits of the heap and of an array's length are not modelled).
\<close>

partial_function (option) outerLoop ::
  "number \<Rightarrow> int \<Rightarrow> 'ins list \<Rightarrow> int \<Rightarrow> 'ins Transaction list
    \<Rightarrow> 'ins Transaction list option" where
  "outerLoop numTransactions batchSize txInstructions i result =
     (if lessNumber i numTransactions then
        outerLoop numTransactions batchSize txInstructions (i + 1)
          (result @ [innerLoop txInstructions ((i + 1) * batchSize) (i * batchSize) newTransaction])
      else Some result)"

definition generateTransactions ::
  "(string \<Rightarrow> thrown + 'pk) \<Rightarrow> ('pk TransferParams \<Rightarrow> thrown + 'ins) \<Rightarrow> double \<Rightarrow> int
    \<Rightarrow> Drop list \<Rightarrow> 'pk \<Rightarrow> double \<Rightarrow> (thrown + 'ins Transaction list) option" where
  "generateTransactions PublicKey transfer LAMPORTS_PER_SOL batchSize dropList fromWallet amount =
     (case mapTransfer PublicKey transfer LAMPORTS_PER_SOL fromWallet amount dropList of
        Inl e \<Rightarrow> Some (Inl e)
      | Inr txInstructions \<Rightarrow>
          map_option Inr
            (outerLoop (ceilDiv (length txInstructions) batchSize) batchSize txInstructions 0 []))"

section \<open>The type guards and the reference id carried by an error message\<close>

fun isTransactionExpiredBlockheightExceededError :: "thrown \<Rightarrow> bool" where
  "isTransactionExpiredBlockheightExceededError Primitive = False"
| "isTransactionExpiredBlockheightExceededError (Object name sig message) =
     (sig \<noteq> None \<and> name = Some ''TransactionExpiredBlockheightExceededError'')"

fun messageOf :: "thrown \<Rightarrow> string option" where
  "messageOf Primitive = None"
| "messageOf (Object name sig message) = message"

definition isErrorWithMessage :: "thrown \<Rightarrow> bool" where
  "isErrorWithMessage error = (messageOf error \<noteq> None)"

text \<open>
  The error that \<^verbatim>\<open>sendAndConfirmTransaction\<close> raises when the blockhash of the
  transaction it sent expires before the confirmation: the ledger client library builds it
  from the signature of that transaction, with this name and this message.
\<close>

definition TransactionExpiredBlockheightExceededError :: "string \<Rightarrow> thrown" where
  "TransactionExpiredBlockheightExceededError sig =
     Object (Some ''TransactionExpiredBlockheightExceededError'') (Some sig)
       (Some (''Signature '' @ sig @ '' has expired: block height exceeded.''))"

text \<open>The class \<^verbatim>\<open>\w\<close> of a regular expression without the unicode flag.\<close>

definition isWordChar :: "char \<Rightarrow> bool" where
  "isWordChar c =
     (c \<in> set ''ABCDEFGHIJKLMNOPQRSTUVWXYZabcdefghijklmnopqrstuvwxyz0123456789_'')"

text \<open>
  \<^verbatim>\<open>error.message.match(/Signature (\w+)/)\<close> followed by
  \<^verbatim>\<open>signatureMatch ? signatureMatch[1] : null\<close>: the leftmost place where the marker
  and at least one word character stand, and the longest run of word characters there.
\<close>

fun matchSignature :: "string \<Rightarrow> string option" where
  "matchSignature [] = None"
| "matchSignature (c # cs) =
     (if take 10 (c # cs) = ''Signature '' \<and> takeWhile isWordChar (drop 10 (c # cs)) \<noteq> []
      then Some (takeWhile isWordChar (drop 10 (c # cs)))
      else matchSignature cs)"

text \<open>A string in a condition: \<^verbatim>\<open>null\<close> and the empty string are falsy.\<close>

definition truthy :: "string option \<Rightarrow> bool" where
  "truthy s = (s \<noteq> None \<and> s \<noteq> Some [])"

text \<open>A number in a template literal, for an integer: decimal digits after a sign.\<close>

definition digitChar :: "nat \<Rightarrow> char" where
  "digitChar d = ''0123456789'' ! d"

fun digits :: "nat \<Rightarrow> string" where
  "digits n = (if n < 10 then [digitChar n] else digits (n div 10) @ [digitChar (n mod 10)])"

declare digits.simps [simp del]

definition showInt :: "int \<Rightarrow> string" where
  "showInt n = (if n < 0 then CHR ''-'' # digits (nat (- n)) else digits (nat n))"

text \<open>The error thrown at line 97, \<open>i\<close> counting the transactions from 0.\<close>

definition expiredError :: "nat \<Rightarrow> int \<Rightarrow> int \<Rightarrow> thrown" where
  "expiredError i currentBlockHeight lastValidBlockHeight =
     Object (Some ''Error'') None
       (Some (''Transaction '' @ showInt (int i + 1)
          @ '' has expired: current block height '' @ showInt currentBlockHeight
          @ '' exceeds last valid block height '' @ showInt lastValidBlockHeight))"

section \<open>executeTransactions\<close>

record SignatureStatus =
  confirmationStatus :: "string option"

text \<open>\<^verbatim>\<open>status?.value?.confirmationStatus === "finalized"\<close>, on the \<^verbatim>\<open>value\<close> of the response.\<close>

definition isFinalized :: "SignatureStatus option \<Rightarrow> bool" where
  "isFinalized status =
     (case status of None \<Rightarrow> False | Some v \<Rightarrow> confirmationStatus v = Some ''finalized'')"

datatype PromiseSettledResult = Fulfilled string | Rejected thrown

text \<open>
  The network is outside the program: each operation takes the state \<open>'w\<close> of the world
  and returns what the awaited promise settles to (\<open>Inl\<close> a rejection) and the world
  after. The signer \<^verbatim>\<open>payer\<close> and the commitment \<^verbatim>\<open>"finalized"\<close> are fixed for
  a run and belong to \<open>sendAndConfirmTransaction\<close>.
\<close>

record ('w, 'ins) Connection =
  getLatestBlockhash :: "'w \<Rightarrow> (thrown + string \<times> int) \<times> 'w"
  getBlockHeight :: "'w \<Rightarrow> (thrown + int) \<times> 'w"
  sendAndConfirmTransaction :: "'ins Transaction \<Rightarrow> 'w \<Rightarrow> (thrown + string) \<times> 'w"
  getSignatureStatus :: "string \<Rightarrow> 'w \<Rightarrow> (thrown + SignatureStatus option) \<times> 'w"
  setTimeout :: "int \<Rightarrow> 'w \<Rightarrow> 'w"

text \<open>
  What a run does to the outside is kept as a trace: every network call with its answer
  (a submission with the index of its transaction), every delay, and every
  \<^verbatim>\<open>results.push\<close> with the index of the transaction it settles.
\<close>

datatype event =
    GetLatestBlockhash "thrown + string \<times> int"
  | GetBlockHeight "thrown + int"
  | SendAndConfirmTransaction nat "thrown + string"
  | GetSignatureStatus string "thrown + SignatureStatus option"
  | SetTimeout int
  | ResultsPush nat PromiseSettledResult

record 'w run =
  world :: 'w
  trace :: "event list"
  results :: "PromiseSettledResult list"

text \<open>The variables of one iteration of the \<^verbatim>\<open>for\<close> loop, beside the run.\<close>

record ('w, 'ins) frame = "'w run" +
  transaction :: "'ins Transaction"
  attempt :: int
  success :: bool
  signature :: "string option"

definition TX_INTERVAL :: int where
  "TX_INTERVAL = 1000"

definition delay :: "('w, 'ins) Connection \<Rightarrow> int \<Rightarrow> ('w, 'z) run_scheme \<Rightarrow> ('w, 'z) run_scheme" where
  "delay conn ms r = r\<lparr>world := setTimeout conn ms (world r), trace := trace r @ [SetTimeout ms]\<rparr>"

definition push :: "nat \<Rightarrow> PromiseSettledResult \<Rightarrow> ('w, 'z) run_scheme \<Rightarrow> ('w, 'z) run_scheme" where
  "push i r f = f\<lparr>trace := trace f @ [ResultsPush i r], results := results f @ [r]\<rparr>"

definition awaitGetLatestBlockhash ::
  "('w, 'ins) Connection \<Rightarrow> ('w, 'ins) frame \<Rightarrow> (thrown + string \<times> int) \<times> ('w, 'ins) frame" where
  "awaitGetLatestBlockhash conn f =
     (case getLatestBlockhash conn (world f) of
        (r, w) \<Rightarrow> (r, f\<lparr>world := w, trace := trace f @ [GetLatestBlockhash r]\<rparr>))"

definition awaitGetBlockHeight ::
  "('w, 'ins) Connection \<Rightarrow> ('w, 'ins) frame \<Rightarrow> (thrown + int) \<times> ('w, 'ins) frame" where
  "awaitGetBlockHeight conn f =
     (case getBlockHeight conn (world f) of
        (r, w) \<Rightarrow> (r, f\<lparr>world := w, trace := trace f @ [GetBlockHeight r]\<rparr>))"

definition awaitSendAndConfirmTransaction ::
  "('w, 'ins) Connection \<Rightarrow> nat \<Rightarrow> ('w, 'ins) frame \<Rightarrow> (thrown + string) \<times> ('w, 'ins) frame" where
  "awaitSendAndConfirmTransaction conn i f =
     (case sendAndConfirmTransaction conn (transaction f) (world f) of
        (r, w) \<Rightarrow> (r, f\<lparr>world := w, trace := trace f @ [SendAndConfirmTransaction i r]\<rparr>))"

definition awaitGetSignatureStatus ::
  "('w, 'ins) Connection \<Rightarrow> string \<Rightarrow> ('w, 'ins) frame
    \<Rightarrow> (thrown + SignatureStatus option) \<times> ('w, 'ins) frame" where
  "awaitGetSignatureStatus conn sig f =
     (case getSignatureStatus conn sig (world f) of
        (r, w) \<Rightarrow> (r, f\<lparr>world := w, trace := trace f @ [GetSignatureStatus sig r]\<rparr>))"

text \<open>
  The \<^verbatim>\<open>try\<close> block, lines 88 to 109: \<open>Some error\<close> when it throws, \<open>None\<close> when
  it runs to its end.
\<close>

definition tryBlock ::
  "('w, 'ins) Connection \<Rightarrow> nat \<Rightarrow> ('w, 'ins) frame \<Rightarrow> thrown option \<times> ('w, 'ins) frame" where
  "tryBlock conn i f =
     (case awaitGetLatestBlockhash conn f of
        (Inl error, f1) \<Rightarrow> (Some error, f1)
      | (Inr (blockhash, lastValidBlockHeight), f1) \<Rightarrow>
          (case awaitGetBlockHeight conn
                  (f1\<lparr>transaction := (transaction f1)\<lparr>recentBlockhash := Some blockhash\<rparr>\<rparr>) of
             (Inl error, f2) \<Rightarrow> (Some error, f2)
           | (Inr currentBlockHeight, f2) \<Rightarrow>
               if currentBlockHeight > lastValidBlockHeight
               then (Some (expiredError i currentBlockHeight lastValidBlockHeight), f2)
               else
                 (case awaitSendAndConfirmTransaction conn i f2 of
                    (Inl error, f3) \<Rightarrow> (Some error, f3)
                  | (Inr sig, f3) \<Rightarrow>
                      (None, push i (Fulfilled sig) (f3\<lparr>signature := Some sig, success := True\<rparr>)))))"

text \<open>Lines 146 to 154, the end of the \<^verbatim>\<open>catch\<close> clause.\<close>

definition countAttempt ::
  "('w, 'ins) Connection \<Rightarrow> int \<Rightarrow> nat \<Rightarrow> thrown \<Rightarrow> ('w, 'ins) frame \<Rightarrow> ('w, 'ins) frame" where
  "countAttempt conn maxRetries i error f =
     (if attempt f + 1 > maxRetries
      then push i (Rejected error) (f\<lparr>attempt := attempt f + 1\<rparr>)
      else delay conn TX_INTERVAL (f\<lparr>attempt := attempt f + 1\<rparr>))"

text \<open>
  How the \<^verbatim>\<open>catch\<close> clause ends: at its last line, by \<^verbatim>\<open>break\<close>, or by the
  rejection of an \<^verbatim>\<open>await\<close> inside it, which no handler of the function encloses.
\<close>

datatype 'f completion = Normal 'f | Break 'f | Throw thrown 'f

definition catchBlock ::
  "('w, 'ins) Connection \<Rightarrow> int \<Rightarrow> nat \<Rightarrow> thrown \<Rightarrow> ('w, 'ins) frame
    \<Rightarrow> ('w, 'ins) frame completion" where
  "catchBlock conn maxRetries i error f =
     (if isTransactionExpiredBlockheightExceededError error \<and> truthy (signature f) then
        (case awaitGetSignatureStatus conn (the (signature f)) f of
           (Inl e, f1) \<Rightarrow> Throw e f1
         | (Inr status, f1) \<Rightarrow>
             if isFinalized status
             then Break (push i (Fulfilled (the (signature f))) (f1\<lparr>success := True\<rparr>))
             else Normal (countAttempt conn maxRetries i error f1))
      else if isErrorWithMessage error then
        (let errorSignature = matchSignature (the (messageOf error)) in
         if truthy errorSignature then
           (case awaitGetSignatureStatus conn (the errorSignature) f of
              (Inl e, f1) \<Rightarrow> Throw e f1
            | (Inr status, f1) \<Rightarrow>
                if isFinalized status
                then Break (push i (Fulfilled (the errorSignature)) (f1\<lparr>success := True\<rparr>))
                else Normal (countAttempt conn maxRetries i error f1))
         else Normal (countAttempt conn maxRetries i error f))
      else Normal (countAttempt conn maxRetries i error f))"

text \<open>One iteration of the \<^verbatim>\<open>while\<close> loop.\<close>

definition whileBody ::
  "('w, 'ins) Connection \<Rightarrow> int \<Rightarrow> nat \<Rightarrow> ('w, 'ins) frame \<Rightarrow> ('w, 'ins) frame completion" where
  "whileBody conn maxRetries i f =
     (case tryBlock conn i f of
        (None, f1) \<Rightarrow> Normal f1
      | (Some error, f1) \<Rightarrow> catchBlock conn maxRetries i error f1)"

text \<open>\<^verbatim>\<open>while (attempt <= maxRetries && !success)\<close>; \<open>Inl\<close> is an exception that leaves it.\<close>

function whileLoop ::
  "('w, 'ins) Connection \<Rightarrow> int \<Rightarrow> nat \<Rightarrow> ('w, 'ins) frame
    \<Rightarrow> thrown \<times> ('w, 'ins) frame + ('w, 'ins) frame" where
  "whileLoop conn maxRetries i f =
     (if attempt f \<le> maxRetries \<and> \<not> success f then
        (case whileBody conn maxRetries i f of
           Normal f1 \<Rightarrow> whileLoop conn maxRetries i f1
         | Break f1 \<Rightarrow> Inr f1
         | Throw e f1 \<Rightarrow> Inl (e, f1))
      else Inr f)"
  by pat_completeness auto
termination
proof (relation "measure (\<lambda>(conn, maxRetries, i, f).
    if success f then 0 else nat (maxRetries + 2 - attempt f))")
  show "wf (measure (\<lambda>(conn :: ('w, 'ins) Connection, maxRetries, i :: nat, f :: ('w, 'ins) frame).
    if success f then 0 else nat (maxRetries + 2 - attempt f)))"
    by simp
next
  fix conn :: "('w, 'ins) Connection" and maxRetries :: int and i :: nat
    and f f1 :: "('w, 'ins) frame"
  assume run: "attempt f \<le> maxRetries \<and> \<not> success f"
    and body: "whileBody conn maxRetries i f = Normal f1"
  have tried: "success g" if "tryBlock conn i f = (None, g)" for g
    using that
    unfolding tryBlock_def awaitGetLatestBlockhash_def awaitGetBlockHeight_def
      awaitSendAndConfirmTransaction_def push_def
    by (auto split: prod.splits sum.splits if_splits)
  have thrown: "attempt g = attempt f" if "tryBlock conn i f = (Some e, g)" for e g
    using that
    unfolding tryBlock_def awaitGetLatestBlockhash_def awaitGetBlockHeight_def
      awaitSendAndConfirmTransaction_def push_def
    by (auto split: prod.splits sum.splits if_splits)
  have counted: "attempt (countAttempt conn maxRetries i e g) = attempt g + 1"
    for e and g :: "('w, 'ins) frame"
    by (simp add: countAttempt_def push_def delay_def)
  have caught: "attempt h = attempt g + 1" if "catchBlock conn maxRetries i e g = Normal h"
    for e and g h :: "('w, 'ins) frame"
    using that
    unfolding catchBlock_def awaitGetSignatureStatus_def Let_def
    by (auto simp: counted split: prod.splits sum.splits if_splits)
  obtain t g where tb: "tryBlock conn i f = (t, g)"
    by (cases "tryBlock conn i f")
  have "success f1 \<or> attempt f1 = attempt f + 1"
  proof (cases t)
    case None
    with body tb tried show ?thesis by (simp add: whileBody_def)
  next
    case (Some e)
    with body tb have "catchBlock conn maxRetries i e g = Normal f1"
      by (simp add: whileBody_def)
    with caught thrown tb Some show ?thesis by simp
  qed
  with run show "((conn, maxRetries, i, f1), (conn, maxRetries, i, f))
      \<in> measure (\<lambda>(conn, maxRetries, i, f).
          if success f then 0 else nat (maxRetries + 2 - attempt f))"
    by auto
qed

declare whileLoop.simps [simp del]

definition enter :: "'w run \<Rightarrow> 'ins Transaction \<Rightarrow> ('w, 'ins) frame" where
  "enter r tx =
     \<lparr>world = world r, trace = trace r, results = results r,
      transaction = tx, attempt = 0, success = False, signature = None\<rparr>"

definition leave :: "('w, 'ins) frame \<Rightarrow> 'w run" where
  "leave f = \<lparr>world = world f, trace = trace f, results = results f\<rparr>"

text \<open>
  \<^verbatim>\<open>for (const [i, transaction] of transactionList.entries())\<close>, \<open>len\<close> being
  \<^verbatim>\<open>transactionList.length\<close>.
\<close>

fun forLoop ::
  "('w, 'ins) Connection \<Rightarrow> int \<Rightarrow> nat \<Rightarrow> nat \<Rightarrow> 'ins Transaction list \<Rightarrow> 'w run
    \<Rightarrow> thrown \<times> 'w run + 'w run" where
  "forLoop conn maxRetries len i [] r = Inr r"
| "forLoop conn maxRetries len i (tx # rest) r =
     (case whileLoop conn maxRetries i (enter r tx) of
        Inl (e, f) \<Rightarrow> Inl (e, leave f)
      | Inr f \<Rightarrow>
          forLoop conn maxRetries len (i + 1) rest
            (if int i < int len - 1 then delay conn TX_INTERVAL (leave f) else leave f))"

text \<open>
  The function returns \<^verbatim>\<open>results\<close>, or rejects with the exception that left the loops;
  the world after the run and the trace of the run come with it.
\<close>

definition executeTransactions ::
  "('w, 'ins) Connection \<Rightarrow> 'ins Transaction list \<Rightarrow> int \<Rightarrow> 'w
    \<Rightarrow> (thrown + PromiseSettledResult list) \<times> 'w \<times> event list" where
  "executeTransactions conn transactionList maxRetries w =
     (case forLoop conn maxRetries (length transactionList) 0 transactionList
             \<lparr>world = w, trace = [], results = []\<rparr> of
        Inl (e, r) \<Rightarrow> (Inl e, world r, trace r)
      | Inr r \<Rightarrow> (Inr (results r), world r, trace r))"

section \<open>Reading a trace\<close>

text \<open>The submissions of a trace, the status lookups and the outcomes pushed, in order.\<close>

fun submissions :: "event list \<Rightarrow> (nat \<times> (thrown + string)) list" where
  "submissions [] = []"
| "submissions (SendAndConfirmTransaction i r # tr) = (i, r) # submissions tr"
| "submissions (ev # tr) = submissions tr"

fun lookups :: "event list \<Rightarrow> string list" where
  "lookups [] = []"
| "lookups (GetSignatureStatus sig r # tr) = sig # lookups tr"
| "lookups (ev # tr) = lookups tr"

fun settled :: "event list \<Rightarrow> (nat \<times> PromiseSettledResult) list" where
  "settled [] = []"
| "settled (ResultsPush i r # tr) = (i, r) # settled tr"
| "settled (ev # tr) = settled tr"

text \<open>
  A trace is in order from \<open>k\<close> when every submission is of the transaction whose index
  is the number of outcomes pushed so far (\<open>k\<close> of them before the trace), and every push
  settles that same transaction.
\<close>

fun inOrder :: "nat \<Rightarrow> event list \<Rightarrow> bool" where
  "inOrder k [] = True"
| "inOrder k (SendAndConfirmTransaction i r # tr) = (i = k \<and> inOrder k tr)"
| "inOrder k (ResultsPush i r # tr) = (i = k \<and> inOrder (Suc k) tr)"
| "inOrder k (ev # tr) = inOrder k tr"

text \<open>The \<open>k\<close>-th slice of \<open>c\<close> elements.\<close>

definition chunk :: "nat \<Rightarrow> 'a list \<Rightarrow> nat \<Rightarrow> 'a list" where
  "chunk c xs k = take c (drop (k * c) xs)"

text \<open>
  The invariant of a run whose next transaction to settle is the \<open>k\<close>-th: the trace is in
  order, the transactions \<open>0\<close> to \<open>k - 1\<close> have been settled, once each and in this order,
  and \<^verbatim>\<open>results\<close> holds their outcomes.
\<close>

definition wellTraced :: "nat \<Rightarrow> ('w, 'z) run_scheme \<Rightarrow> bool" where
  "wellTraced k r =
     (inOrder 0 (trace r) \<and> map fst (settled (trace r)) = [0..<k]
      \<and> map snd (settled (trace r)) = results r)"

section \<open>Sample networks\<close>

text \<open>
  A network without a state of its own: every blockhash expires at height 100, the current
  height, the answer to a submission and the answer to a status lookup are given.
\<close>

definition scripted ::
  "int \<Rightarrow> thrown + string \<Rightarrow> thrown + SignatureStatus option
    \<Rightarrow> (unit, string TransferParams) Connection" where
  "scripted height submission status =
     \<lparr>getLatestBlockhash = (\<lambda>w. (Inr (''hash'', 100), w)),
      getBlockHeight = (\<lambda>w. (Inr height, w)),
      sendAndConfirmTransaction = (\<lambda>tx w. (submission, w)),
      getSignatureStatus = (\<lambda>sig w. (status, w)),
      setTimeout = (\<lambda>ms w. w)\<rparr>"

text \<open>The typed expiry error of the signature \<open>5sig\<close>, and two plain errors.\<close>

definition expiredWithMarker :: thrown where
  "expiredWithMarker =
     Object (Some ''TransactionExpiredBlockheightExceededError'') (Some ''5sig'')
       (Some ''Signature 5sig has expired: block height exceeded.'')"

definition timedOut :: thrown where
  "timedOut = Object (Some ''Error'') None (Some ''Signature 5sig has timed out'')"

definition fetchFailed :: thrown where
  "fetchFailed = Object (Some ''Error'') None (Some ''fetch failed'')"

definition landed :: "SignatureStatus option" where
  "landed = Some \<lparr>confirmationStatus = Some ''finalized''\<rparr>"

definition start :: "unit run" where
  "start = \<lparr>world = (), trace = [], results = []\<rparr>"

definition payment :: "string TransferParams Transaction" where
  "payment =
     \<lparr>instructions =
        [\<lparr>fromPubkey = ''payer'', toPubkey = ''a'', lamports = Number 1000000000\<rparr>],
      recentBlockhash = None\<rparr>"

text \<open>
  A stand-in for \<^verbatim>\<open>SystemProgram.transfer\<close> in the examples: it refuses the lamports that
  are not a whole number from 0 to \<open>2 ^ 64 - 1\<close>, and the instruction it makes is kept as the
  parameters it was given.
\<close>

definition rangeError :: thrown where
  "rangeError = Object (Some ''RangeError'') None (Some ''lamports out of range'')"

definition sampleTransfer :: "string TransferParams \<Rightarrow> thrown + string TransferParams" where
  "sampleTransfer params =
     (case lamports params of
        Number q \<Rightarrow>
          if 0 \<le> q \<and> q < 2 ^ 64 \<and> of_int \<lfloor>q\<rfloor> = q then Inr params else Inl rangeError
      | PlusInfinity \<Rightarrow> Inl rangeError
      | MinusInfinity \<Rightarrow> Inl rangeError
      | NotANumber \<Rightarrow> Inl rangeError)"

section \<open>The batcher: lemmas\<close>

lemma innerLoop_slice:
  "0 \<le> j \<Longrightarrow> innerLoop xs u j b =
     b\<lparr>instructions := instructions b @ take (nat (u - j)) (drop (nat j) xs)\<rparr>"
proof (induction xs u j b rule: innerLoop.induct)
  case (1 xs u j b)
  show ?case
  proof (cases "j < u")
    case False
    then show ?thesis by (simp add: innerLoop.simps)
  next
    case True
    have nn: "0 \<le> j + 1" using "1.prems" by simp
    have k: "nat (u - j) = Suc (nat (u - (j + 1)))" using True by simp
    have d: "nat (j + 1) = Suc (nat j)" using "1.prems" by simp
    show ?thesis
    proof (cases "j < int (length xs)")
      case inr: True
      then have lt: "nat j < length xs" using "1.prems" by simp
      have "take (nat (u - j)) (drop (nat j) xs)
          = xs ! nat j # take (nat (u - (j + 1))) (drop (nat (j + 1)) xs)"
        unfolding k d using lt by (simp add: Cons_nth_drop_Suc [symmetric])
      then show ?thesis
        using True inr "1.prems" "1.IH" [OF True nn]
        by (subst innerLoop.simps) (simp add: element_def add_def)
    next
      case out: False
      then have "drop (nat j) xs = []" "drop (nat (j + 1)) xs = []" using "1.prems" by simp_all
      then show ?thesis
        using True out "1.prems" "1.IH" [OF True nn]
        by (subst innerLoop.simps) (simp add: element_def)
    qed
  qed
qed

lemma concat_chunks: "concat (map (chunk c xs) [0..<n]) = take (n * c) xs"
proof (induction n)
  case 0
  then show ?case by simp
next
  case (Suc n)
  have "Suc n * c = n * c + c" by simp
  then have "take (Suc n * c) xs = take (n * c) xs @ take c (drop (n * c) xs)"
    by (simp only: take_add)
  with Suc show ?case by (simp add: chunk_def)
qed

lemma outerLoop_finite:
  assumes "0 \<le> i"
  shows "outerLoop (Finite n) c xs i res =
     Some (res @ map (\<lambda>k. innerLoop xs ((int k + 1) * c) (int k * c) newTransaction) [nat i..<nat n])"
  using assms
proof (induction "nat (n - i)" arbitrary: i res)
  case 0
  then have "\<not> i < n" by simp
  then show ?case using 0 by (subst outerLoop.simps) simp
next
  case (Suc m)
  then have lt: "i < n" by linarith
  have m: "m = nat (n - (i + 1))" using Suc.hyps(2) by linarith
  have nn: "0 \<le> i + 1" using Suc.prems by simp
  have up: "[nat i..<nat n] = nat i # [nat (i + 1)..<nat n]"
    using lt Suc.prems by (simp add: upt_conv_Cons nat_add_distrib)
  show ?case
    using lt Suc.prems Suc.hyps(1) [OF m nn]
    by (subst outerLoop.simps) (simp add: up)
qed

lemma outerLoop_returns_finite:
  assumes "outerLoop n c xs i res = Some y"
  shows "n \<noteq> PosInfinity"
proof (rule outerLoop.raw_induct [where P = "\<lambda>n c xs i res y. n \<noteq> PosInfinity", OF _ assms])
  fix f :: "number \<Rightarrow> int \<Rightarrow> 'a list \<Rightarrow> int \<Rightarrow> 'a Transaction list
    \<Rightarrow> 'a Transaction list option"
  fix n c xs i res y
  assume IH: "\<And>n c xs i res y. f n c xs i res = Some y \<Longrightarrow> n \<noteq> PosInfinity"
    and eq: "(if lessNumber i n then f n c xs (i + 1)
                (res @ [innerLoop xs ((i + 1) * c) (i * c) newTransaction])
              else Some res) = Some y"
  show "n \<noteq> PosInfinity"
  proof
    assume inf: "n = PosInfinity"
    with eq have "f PosInfinity c xs (i + 1)
        (res @ [innerLoop xs ((i + 1) * c) (i * c) newTransaction]) = Some y"
      by simp
    from IH [OF this] show False by simp
  qed
qed

lemma outerLoop_PosInfinity: "outerLoop PosInfinity c xs i res = None"
proof (cases "outerLoop PosInfinity c xs i res")
  case None
  then show ?thesis .
next
  case (Some y)
  from outerLoop_returns_finite [OF Some] show ?thesis by simp
qed

lemma outerLoop_stop:
  "\<not> lessNumber i n \<Longrightarrow> outerLoop n c xs i res = Some res"
  by (subst outerLoop.simps) simp

lemma batch_slice:
  assumes "1 \<le> c"
  shows "innerLoop xs ((int k + 1) * c) (int k * c) newTransaction
    = \<lparr>instructions = chunk (nat c) xs k, recentBlockhash = None\<rparr>"
proof -
  have "0 \<le> int k * c" using assms by simp
  moreover have "nat ((int k + 1) * c - int k * c) = nat c" by (simp add: algebra_simps)
  moreover have "nat (int k * c) = k * nat c" using assms by (simp add: nat_mult_distrib)
  ultimately show ?thesis
    by (simp add: innerLoop_slice chunk_def newTransaction_def)
qed

lemma ceiling_covers:
  assumes "1 \<le> c"
  shows "0 \<le> \<lceil>real N / real_of_int c\<rceil>"
    and "N \<le> nat \<lceil>real N / real_of_int c\<rceil> * nat c"
proof -
  let ?n = "\<lceil>real N / real_of_int c\<rceil>"
  have pos: "0 < real_of_int c" using assms by simp
  have "0 \<le> real N / real_of_int c" using pos by simp
  then show n0: "0 \<le> ?n" by (simp add: zero_le_ceiling)
  have "real N / real_of_int c \<le> real_of_int ?n" by (rule le_of_int_ceiling)
  then have "real N \<le> real_of_int ?n * real_of_int c"
    using pos by (simp only: pos_divide_le_eq)
  then have "int N \<le> ?n * c" by (metis of_int_le_iff of_int_mult of_int_of_nat_eq)
  then show "N \<le> nat ?n * nat c"
    using n0 assms by (metis nat_mult_distrib nat_int nat_mono)
qed

lemma outerLoop_batches:
  assumes "1 \<le> c"
  shows "outerLoop (ceilDiv (length xs) c) c xs 0 [] =
    Some (map (\<lambda>k. \<lparr>instructions = chunk (nat c) xs k, recentBlockhash = None\<rparr>)
            [0..<nat \<lceil>real (length xs) / real_of_int c\<rceil>])"
  using assms by (simp add: ceilDiv_def outerLoop_finite batch_slice)

lemma mapTransfer_Inr:
  "mapTransfer PublicKey transfer L fromWallet amount dropList = Inr txInstructions \<Longrightarrow>
     length txInstructions = length dropList \<and>
     (\<forall>i < length dropList. \<exists>key.
        PublicKey (owner (dropList ! i)) = Inr key \<and>
        transfer \<lparr>fromPubkey = fromWallet, toPubkey = key, lamports = multiply amount L\<rparr>
          = Inr (txInstructions ! i))"
proof (induction dropList arbitrary: txInstructions)
  case Nil
  then show ?case by simp
next
  case (Cons d ds)
  from Cons.prems obtain key ins rest where
    key: "PublicKey (owner d) = Inr key"
    and ins: "transfer \<lparr>fromPubkey = fromWallet, toPubkey = key, lamports = multiply amount L\<rparr>
        = Inr ins"
    and rest: "mapTransfer PublicKey transfer L fromWallet amount ds = Inr rest"
    and txs: "txInstructions = ins # rest"
    by (auto split: sum.splits)
  from Cons.IH [OF rest] key ins txs show ?case
    by (auto simp: nth_Cons split: nat.splits)
qed

lemma mapTransfer_Inl:
  "mapTransfer PublicKey transfer L fromWallet amount dropList = Inl e \<Longrightarrow>
     \<exists>d \<in> set dropList.
       PublicKey (owner d) = Inl e \<or>
       (\<exists>key. PublicKey (owner d) = Inr key \<and>
          transfer \<lparr>fromPubkey = fromWallet, toPubkey = key, lamports = multiply amount L\<rparr>
            = Inl e)"
  by (induction dropList) (auto split: sum.splits)

lemma floor_rat_numeral: "\<lfloor>numeral a / numeral b :: rat\<rfloor> = numeral a div numeral b"
  using floor_divide_of_int_eq [of "numeral a" "numeral b", where ?'a = rat] by simp

lemma ceiling_rat_numeral: "\<lceil>numeral a / numeral b :: rat\<rceil> = - (- numeral a div numeral b)"
  using floor_divide_of_int_eq [of "- numeral a" "numeral b", where ?'a = rat]
  by (simp add: ceiling_def)

lemmas double_defs = roundDouble_def roundMagnitude_def roundHalfEven_def ilog2_def pow2_def
  bits.simps floor_rat_numeral ceiling_rat_numeral

lemma bits_positive: "0 < n \<Longrightarrow> 1 \<le> bits n"
proof -
  assume "0 < n"
  moreover have "0 \<le> bits m" for m
    by (induction m rule: bits.induct) (subst bits.simps, simp)
  ultimately show ?thesis
    by (subst bits.simps) (simp add: add_increasing2)
qed

lemma bits_lower: "0 < n \<Longrightarrow> 2 ^ nat (bits n - 1) \<le> n"
proof (induction n rule: bits.induct)
  case (1 n)
  show ?case
  proof (cases "n = 1")
    case True
    then show ?thesis by (simp add: bits.simps)
  next
    case False
    with "1.prems" have half: "0 < n div 2" by simp
    have run: "\<not> n \<le> 0" using "1.prems" by simp
    from "1.IH" [OF this half] have ih: "2 ^ nat (bits (n div 2) - 1) \<le> n div 2" .
    have b: "bits n = bits (n div 2) + 1" using run by (subst bits.simps) simp
    have "nat (bits n - 1) = Suc (nat (bits (n div 2) - 1))"
      using b bits_positive [OF half] by simp
    then have "(2 :: int) ^ nat (bits n - 1) = 2 * 2 ^ nat (bits (n div 2) - 1)" by simp
    also have "\<dots> \<le> 2 * (n div 2)" using ih by simp
    also have "\<dots> \<le> n" by simp
    finally show ?thesis .
  qed
qed

lemma roundHalfEven_whole: "roundHalfEven (of_int m) = m"
  by (simp add: roundHalfEven_def)

lemma roundDouble_whole:
  assumes "0 \<le> n" and "n \<le> 2 ^ 53"
  shows "roundDouble (of_int n) = Number (of_int n)"
proof (cases "n = 0 \<or> n = 2 ^ 53")
  case True
  then show ?thesis
  proof
    assume "n = 0"
    then show ?thesis by (simp add: roundDouble_def)
  next
    assume "n = 2 ^ 53"
    then show ?thesis
      by (simp add: roundDouble_def roundMagnitude_def roundHalfEven_def ilog2_def pow2_def
          bits.simps)
  qed
next
  case False
  with assms have pos: "0 < n" and small: "n < 2 ^ 53" by simp_all
  let ?k = "bits n - 1"
  have k0: "0 \<le> ?k" using bits_positive [OF pos] by simp
  have below: "(2 :: int) ^ nat ?k < 2 ^ 53"
    using bits_lower [OF pos] small by linarith
  have "nat ?k < 53"
  proof (rule ccontr)
    assume "\<not> nat ?k < 53"
    then have "53 \<le> nat ?k" by simp
    then have "(2 :: int) ^ 53 \<le> 2 ^ nat ?k" by (rule power_increasing) simp
    with below show False by linarith
  qed
  then have k52: "?k \<le> 52" by linarith
  have log: "ilog2 (of_int n) = ?k"
    using pos by (simp add: ilog2_def)
  let ?s = "nat (53 - bits n)"
  have e: "max (?k - 52) (- 1074) = bits n - 53" using k0 by simp
  have p: "pow2 (bits n - 53) = 1 / 2 ^ ?s"
  proof (cases "bits n = 53")
    case True
    then show ?thesis by (simp add: pow2_def)
  next
    case False
    with k52 have "\<not> 0 \<le> bits n - 53" by simp
    moreover have "nat (- (bits n - 53)) = ?s" by simp
    ultimately show ?thesis by (simp only: pow2_def if_False)
  qed
  have scaled: "of_int n / pow2 (bits n - 53) = (of_int (n * 2 ^ ?s) :: rat)"
    by (simp only: p) simp
  have mag: "roundMagnitude (of_int n) = of_int n"
    unfolding roundMagnitude_def log e scaled roundHalfEven_whole
    by (simp only: p) simp
  have "(of_int n :: rat) < 2 ^ 1024"
  proof -
    have "(of_int n :: rat) < of_int (2 ^ 53)" using small by (simp only: of_int_less_iff)
    also have "\<dots> < 2 ^ 1024" by simp
    finally show ?thesis .
  qed
  then have "\<not> pow2 1024 \<le> roundMagnitude \<bar>of_int n\<bar>"
    using pos by (simp add: mag pow2_def)
  then show ?thesis
    using pos by (simp add: roundDouble_def mag)
qed

lemma roundDouble_numeral:
  "(numeral k :: int) \<le> 2 ^ 53 \<Longrightarrow> roundDouble (numeral k) = Number (numeral k)"
  using roundDouble_whole [of "numeral k"] by simp

lemma multiply_whole:
  "amount = Number (of_int a) \<and> LAMPORTS_PER_SOL = Number (of_int b)
      \<and> 0 \<le> a * b \<and> a * b \<le> 2 ^ 53
    \<longrightarrow> multiply amount LAMPORTS_PER_SOL = Number (of_int (a * b))"
  using roundDouble_whole [of "a * b"] by auto

lemma generateTransactions_partition_lemma:
  assumes "1 \<le> batchSize"
    and "mapTransfer PublicKey transfer LAMPORTS_PER_SOL fromWallet amount dropList = Inr txInstructions"
  shows "\<exists>result.
      generateTransactions PublicKey transfer LAMPORTS_PER_SOL batchSize dropList fromWallet amount
        = Some (Inr result)
    \<and> int (length result) = \<lceil>real (length txInstructions) / real_of_int batchSize\<rceil>
    \<and> (\<forall>tx \<in> set result. int (length (instructions tx)) \<le> batchSize)
    \<and> sum_list (map (\<lambda>tx. length (instructions tx)) result) = length txInstructions
    \<and> concat (map instructions result) = txInstructions"
proof -
  let ?n = "nat \<lceil>real (length txInstructions) / real_of_int batchSize\<rceil>"
  let ?result = "map (\<lambda>k. \<lparr>instructions = chunk (nat batchSize) txInstructions k,
                                recentBlockhash = None\<rparr>) [0..<?n]"
  have run: "generateTransactions PublicKey transfer LAMPORTS_PER_SOL batchSize dropList fromWallet amount
      = Some (Inr ?result)"
    using assms by (simp add: generateTransactions_def outerLoop_batches)
  have len: "int (length ?result) = \<lceil>real (length txInstructions) / real_of_int batchSize\<rceil>"
    using ceiling_covers(1) [OF assms(1)] by simp
  have size: "\<forall>tx \<in> set ?result. int (length (instructions tx)) \<le> batchSize"
    using assms(1) by (auto simp: chunk_def)
  have "map instructions ?result = map (chunk (nat batchSize) txInstructions) [0..<?n]"
    by (simp add: comp_def)
  then have "concat (map instructions ?result) = take (?n * nat batchSize) txInstructions"
    by (simp only: concat_chunks)
  then have cat: "concat (map instructions ?result) = txInstructions"
    using ceiling_covers(2) [OF assms(1), of "length txInstructions"] by simp
  have "sum_list (map (\<lambda>tx. length (instructions tx)) ?result)
      = length (concat (map instructions ?result))"
    by (simp add: length_concat comp_def)
  then have total: "sum_list (map (\<lambda>tx. length (instructions tx)) ?result) = length txInstructions"
    using cat by simp
  from run len size total cat show ?thesis by blast
qed

section \<open>The runner: lemmas\<close>

lemmas await_defs = awaitGetLatestBlockhash_def awaitGetBlockHeight_def
  awaitSendAndConfirmTransaction_def awaitGetSignatureStatus_def

lemma whileLoop_done:
  "\<not> (attempt f \<le> maxRetries \<and> \<not> success f) \<Longrightarrow> whileLoop conn maxRetries i f = Inr f"
  by (subst whileLoop.simps) auto

lemma whileLoop_step:
  "attempt f \<le> maxRetries \<Longrightarrow> \<not> success f \<Longrightarrow>
   whileLoop conn maxRetries i f =
     (case whileBody conn maxRetries i f of
        Normal f1 \<Rightarrow> whileLoop conn maxRetries i f1
      | Break f1 \<Rightarrow> Inr f1
      | Throw e f1 \<Rightarrow> Inl (e, f1))"
  by (subst whileLoop.simps) simp

lemma whileBody_submitted:
  assumes "getLatestBlockhash conn (world f) = (Inr (blockhash, lastValid), w1)"
    and "getBlockHeight conn w1 = (Inr height, w2)"
    and "\<not> height > lastValid"
    and "sendAndConfirmTransaction conn ((transaction f)\<lparr>recentBlockhash := Some blockhash\<rparr>) w2
          = (Inr sig, w3)"
  shows "whileBody conn maxRetries i f =
     Normal (f\<lparr>world := w3,
        trace := trace f @ [GetLatestBlockhash (Inr (blockhash, lastValid)),
          GetBlockHeight (Inr height), SendAndConfirmTransaction i (Inr sig),
          ResultsPush i (Fulfilled sig)],
        results := results f @ [Fulfilled sig],
        transaction := (transaction f)\<lparr>recentBlockhash := Some blockhash\<rparr>,
        success := True, signature := Some sig\<rparr>)"
  using assms by (simp add: whileBody_def tryBlock_def await_defs push_def)

lemma whileBody_submission_thrown:
  assumes "getLatestBlockhash conn (world f) = (Inr (blockhash, lastValid), w1)"
    and "getBlockHeight conn w1 = (Inr height, w2)"
    and "\<not> height > lastValid"
    and "sendAndConfirmTransaction conn ((transaction f)\<lparr>recentBlockhash := Some blockhash\<rparr>) w2
          = (Inl e, w3)"
  shows "whileBody conn maxRetries i f =
     catchBlock conn maxRetries i e
       (f\<lparr>transaction := (transaction f)\<lparr>recentBlockhash := Some blockhash\<rparr>,
          world := w3,
          trace := trace f @ [GetLatestBlockhash (Inr (blockhash, lastValid)),
            GetBlockHeight (Inr height), SendAndConfirmTransaction i (Inl e)]\<rparr>)"
  using assms by (simp add: whileBody_def tryBlock_def await_defs)

lemma matchSignature_nonempty: "matchSignature s = Some t \<Longrightarrow> t \<noteq> []"
  by (induction s) (auto split: if_splits)

lemma matchSignature_no_S: "CHR ''S'' \<notin> set s \<Longrightarrow> matchSignature s = None"
  by (induction s) auto

lemma digits_set: "set (digits n) \<subseteq> set ''0123456789''"
proof (induction n rule: digits.induct)
  case (1 n)
  have d: "digitChar k \<in> set ''0123456789''" if "k < 10" for k
    unfolding digitChar_def using that by (intro nth_mem) simp
  show ?case
  proof (cases "n < 10")
    case True
    then show ?thesis using d [of n] by (subst digits.simps) simp
  next
    case False
    have "n mod 10 < 10" by simp
    from d [OF this] "1.IH" [OF False] False show ?thesis
      by (subst digits.simps) simp
  qed
qed

lemma showInt_no_S: "CHR ''S'' \<notin> set (showInt n)"
  using digits_set [of "nat n"] digits_set [of "nat (- n)"]
  by (auto simp: showInt_def)

lemma expiredError_no_match:
  "isErrorWithMessage (expiredError i h l)"
  "\<not> isTransactionExpiredBlockheightExceededError (expiredError i h l)"
  "matchSignature (the (messageOf (expiredError i h l))) = None"
  by (simp_all add: expiredError_def isErrorWithMessage_def matchSignature_no_S showInt_no_S)


lemma settled_append: "settled (a @ b) = settled a @ settled b"
  by (induction a rule: settled.induct) simp_all

lemma submissions_append: "submissions (a @ b) = submissions a @ submissions b"
  by (induction a rule: submissions.induct) simp_all

lemma lookups_append: "lookups (a @ b) = lookups a @ lookups b"
  by (induction a rule: lookups.induct) simp_all

lemma inOrder_append:
  "inOrder k (a @ b) = (inOrder k a \<and> inOrder (k + length (settled a)) b)"
  by (induction k a rule: inOrder.induct) auto

lemma wellTraced_length: "wellTraced k r \<Longrightarrow> length (settled (trace r)) = k"
  unfolding wellTraced_def by (metis length_map length_upt minus_nat.diff_0)

lemma wellTraced_quiet:
  assumes "wellTraced k r" and "trace r' = trace r @ [ev]" and "results r' = results r"
    and "settled [ev] = []" and "inOrder k [ev]"
  shows "wellTraced k r'"
  using assms wellTraced_length [OF assms(1)]
  by (simp add: wellTraced_def inOrder_append settled_append)

lemma wellTraced_push:
  assumes "wellTraced k r" and "trace r' = trace r @ [ResultsPush k out]"
    and "results r' = results r @ [out]"
  shows "wellTraced (Suc k) r'"
  using assms wellTraced_length [OF assms(1)]
  by (simp add: wellTraced_def inOrder_append settled_append)

lemma tryBlock_wellTraced:
  assumes "wellTraced i f" and "tryBlock conn i f = (t, f1)"
  shows "attempt f1 = attempt f \<and>
    (case t of None \<Rightarrow> success f1 \<and> wellTraced (Suc i) f1
     | Some e \<Rightarrow> success f1 = success f \<and> wellTraced i f1)"
  using assms(2) wellTraced_length [OF assms(1)] assms(1)
  unfolding tryBlock_def await_defs push_def wellTraced_def
  by (auto simp: inOrder_append settled_append split: prod.splits sum.splits if_splits)

lemma countAttempt_wellTraced:
  assumes "wellTraced i f"
  shows "attempt (countAttempt conn maxRetries i e f) = attempt f + 1
    \<and> success (countAttempt conn maxRetries i e f) = success f
    \<and> wellTraced (if attempt f + 1 > maxRetries then Suc i else i)
        (countAttempt conn maxRetries i e f)"
  using assms wellTraced_length [OF assms]
  by (simp add: countAttempt_def push_def delay_def wellTraced_def inOrder_append settled_append)

lemma awaitGetSignatureStatus_wellTraced:
  assumes "wellTraced i f" and "awaitGetSignatureStatus conn sig f = (x, f1)"
  shows "attempt f1 = attempt f \<and> success f1 = success f \<and> wellTraced i f1"
  using assms(2) wellTraced_length [OF assms(1)] assms(1)
  unfolding awaitGetSignatureStatus_def wellTraced_def
  by (auto simp: inOrder_append settled_append split: prod.splits)

lemma break_wellTraced:
  assumes "wellTraced i f"
  shows "wellTraced (Suc i) (push i out (f\<lparr>success := True\<rparr>))"
  using assms wellTraced_length [OF assms]
  by (simp add: push_def wellTraced_def inOrder_append settled_append)

lemma catchBlock_wellTraced:
  assumes "wellTraced i f" and "catchBlock conn maxRetries i e f = c"
  shows "case c of
      Normal f1 \<Rightarrow> attempt f1 = attempt f + 1 \<and> success f1 = success f
        \<and> wellTraced (if attempt f1 > maxRetries then Suc i else i) f1
    | Break f1 \<Rightarrow> wellTraced (Suc i) f1
    | Throw e' f1 \<Rightarrow> True"
proof -
  note ca = countAttempt_wellTraced
  have looked: "case (case awaitGetSignatureStatus conn sig f of
           (Inl e', f1) \<Rightarrow> Throw e' f1
         | (Inr status, f1) \<Rightarrow>
             if isFinalized status
             then Break (push i (Fulfilled sig) (f1\<lparr>success := True\<rparr>))
             else Normal (countAttempt conn maxRetries i e f1)) of
      Normal f1 \<Rightarrow> attempt f1 = attempt f + 1 \<and> success f1 = success f
        \<and> wellTraced (if attempt f1 > maxRetries then Suc i else i) f1
    | Break f1 \<Rightarrow> wellTraced (Suc i) f1
    | Throw e' f1 \<Rightarrow> True" for sig
  proof (cases "awaitGetSignatureStatus conn sig f")
    case (Pair x f1)
    from awaitGetSignatureStatus_wellTraced [OF assms(1) Pair]
    have f1: "attempt f1 = attempt f" "success f1 = success f" "wellTraced i f1" by simp_all
    show ?thesis
      using Pair f1 ca [OF f1(3), where conn = conn and maxRetries = maxRetries and e = e] break_wellTraced [OF f1(3)]
      by (cases x) simp_all
  qed
  show ?thesis
    using assms(2) [symmetric] looked ca [OF assms(1), where conn = conn and maxRetries = maxRetries and e = e]
    by (simp add: catchBlock_def Let_def)
qed

lemma whileBody_wellTraced:
  assumes "wellTraced i f" and "whileBody conn maxRetries i f = c"
  shows "case c of
      Normal f1 \<Rightarrow>
        (success f1 \<and> wellTraced (Suc i) f1)
        \<or> (attempt f1 = attempt f + 1 \<and> success f1 = success f
            \<and> wellTraced (if attempt f1 > maxRetries then Suc i else i) f1)
    | Break f1 \<Rightarrow> wellTraced (Suc i) f1
    | Throw e' f1 \<Rightarrow> True"
proof (cases "tryBlock conn i f")
  case (Pair t f1)
  note tb = tryBlock_wellTraced [OF assms(1) Pair]
  show ?thesis
  proof (cases t)
    case None
    with tb Pair assms(2) show ?thesis by (auto simp: whileBody_def)
  next
    case (Some e)
    with tb have f1: "attempt f1 = attempt f" "success f1 = success f" "wellTraced i f1"
      by simp_all
    from Some Pair assms(2) have "catchBlock conn maxRetries i e f1 = c"
      by (simp add: whileBody_def)
    from catchBlock_wellTraced [OF f1(3) this] f1(1,2) show ?thesis
      by (cases c) (auto split: if_splits)
  qed
qed

lemma whileLoop_wellTraced:
  "whileLoop conn maxRetries i f = Inr f' \<Longrightarrow>
   (if attempt f \<le> maxRetries \<and> \<not> success f then wellTraced i f else wellTraced (Suc i) f)
   \<Longrightarrow> wellTraced (Suc i) f'"
proof (induction conn maxRetries i f rule: whileLoop.induct)
  case (1 conn maxRetries i f)
  show ?case
  proof (cases "attempt f \<le> maxRetries \<and> \<not> success f")
    case False
    with "1.prems" show ?thesis by (auto simp: whileLoop_done split: if_splits)
  next
    case True
    then have wt: "wellTraced i f" using "1.prems"(2) by simp
    note body = whileBody_wellTraced [OF wt refl, where conn = conn and maxRetries = maxRetries]
    from True have step: "whileLoop conn maxRetries i f =
       (case whileBody conn maxRetries i f of
          Normal f1 \<Rightarrow> whileLoop conn maxRetries i f1
        | Break f1 \<Rightarrow> Inr f1
        | Throw e f1 \<Rightarrow> Inl (e, f1))"
      by (simp add: whileLoop_step)
    show ?thesis
    proof (cases "whileBody conn maxRetries i f")
      case (Normal f1)
      with step "1.prems"(1) have run: "whileLoop conn maxRetries i f1 = Inr f'" by simp
      from body Normal True
      have "if attempt f1 \<le> maxRetries \<and> \<not> success f1 then wellTraced i f1
            else wellTraced (Suc i) f1"
        by auto
      from "1.IH" [OF True Normal run this] show ?thesis .
    next
      case (Break f1)
      with step "1.prems"(1) body show ?thesis by simp
    next
      case (Throw e f1)
      with step "1.prems"(1) show ?thesis by simp
    qed
  qed
qed

lemma forLoop_wellTraced:
  "0 \<le> maxRetries \<Longrightarrow> wellTraced i r \<Longrightarrow>
   forLoop conn maxRetries len i transactionList r = Inr r' \<Longrightarrow>
   wellTraced (i + length transactionList) r'"
proof (induction transactionList arbitrary: i r)
  case Nil
  then show ?case by simp
next
  case (Cons tx rest)
  from Cons.prems(3) obtain f where
    loop: "whileLoop conn maxRetries i (enter r tx) = Inr f"
    and rest: "forLoop conn maxRetries len (i + 1) rest
        (if int i < int len - 1 then delay conn TX_INTERVAL (leave f) else leave f) = Inr r'"
    by (auto split: sum.splits prod.splits)
  have "wellTraced i (enter r tx)"
    using Cons.prems(2) by (simp add: wellTraced_def enter_def)
  with Cons.prems(1) have "wellTraced (Suc i) f"
    by (intro whileLoop_wellTraced [OF loop]) (simp add: enter_def)
  then have "wellTraced (Suc i)
      (if int i < int len - 1 then delay conn TX_INTERVAL (leave f) else leave f)"
    by (simp add: wellTraced_def leave_def delay_def inOrder_append settled_append)
  from Cons.IH [OF Cons.prems(1) this] rest show ?case by simp
qed

lemma countAttempt_fields:
  "attempt (countAttempt conn maxRetries i e f) = attempt f + 1"
  "success (countAttempt conn maxRetries i e f) = success f"
  "signature (countAttempt conn maxRetries i e f) = signature f"
  "transaction (countAttempt conn maxRetries i e f) = transaction f"
  "trace (countAttempt conn maxRetries i e f) =
     trace f @ [if attempt f + 1 > maxRetries then ResultsPush i (Rejected e)
                else SetTimeout TX_INTERVAL]"
  "results (countAttempt conn maxRetries i e f) =
     results f @ (if attempt f + 1 > maxRetries then [Rejected e] else [])"
  by (simp_all add: countAttempt_def push_def delay_def)

lemma rejected_attempt:
  assumes submit: "\<forall>w. \<exists>blockhash lastValid w1 height w2 e w3.
        getLatestBlockhash conn w = (Inr (blockhash, lastValid), w1)
      \<and> getBlockHeight conn w1 = (Inr height, w2)
      \<and> \<not> height > lastValid
      \<and> sendAndConfirmTransaction conn (tx\<lparr>recentBlockhash := Some blockhash\<rparr>) w2 = (Inl e, w3)
      \<and> isTransactionExpiredBlockheightExceededError e"
    and lookup: "\<forall>sig w. \<exists>status w'.
        getSignatureStatus conn sig w = (Inr status, w') \<and> \<not> isFinalized status"
    and sig: "signature f = None"
    and tx: "transaction f = tx\<lparr>recentBlockhash := b\<rparr>"
  shows "\<exists>e f1 seg. whileBody conn maxRetries i f = Normal (countAttempt conn maxRetries i e f1)
      \<and> isTransactionExpiredBlockheightExceededError e
      \<and> trace f1 = trace f @ seg \<and> submissions seg = [(i, Inl e)] \<and> settled seg = []
      \<and> results f1 = results f \<and> signature f1 = None \<and> success f1 = success f
      \<and> attempt f1 = attempt f \<and> (\<exists>b'. transaction f1 = tx\<lparr>recentBlockhash := b'\<rparr>)"
proof -
  from submit obtain blockhash lastValid w1 height w2 e w3 where
    glb: "getLatestBlockhash conn (world f) = (Inr (blockhash, lastValid), w1)"
    and gbh: "getBlockHeight conn w1 = (Inr height, w2)"
    and fresh: "\<not> height > lastValid"
    and send: "sendAndConfirmTransaction conn (tx\<lparr>recentBlockhash := Some blockhash\<rparr>) w2
        = (Inl e, w3)"
    and expired: "isTransactionExpiredBlockheightExceededError e"
    by blast
  have same: "(transaction f)\<lparr>recentBlockhash := Some blockhash\<rparr> = tx\<lparr>recentBlockhash := Some blockhash\<rparr>"
    using tx by simp
  let ?seg = "[GetLatestBlockhash (Inr (blockhash, lastValid)), GetBlockHeight (Inr height),
    SendAndConfirmTransaction i (Inl e)]"
  let ?f0 = "f\<lparr>transaction := (transaction f)\<lparr>recentBlockhash := Some blockhash\<rparr>,
    world := w3, trace := trace f @ ?seg\<rparr>"
  have body: "whileBody conn maxRetries i f = catchBlock conn maxRetries i e ?f0"
    using send by (intro whileBody_submission_thrown [OF glb gbh fresh]) (simp add: same)
  show ?thesis
  proof (cases "isErrorWithMessage e \<and> truthy (matchSignature (the (messageOf e)))")
    case False
    then have "catchBlock conn maxRetries i e ?f0 = Normal (countAttempt conn maxRetries i e ?f0)"
      using sig by (auto simp: catchBlock_def truthy_def Let_def)
    with body expired sig same show ?thesis
      by (intro exI [of _ e] exI [of _ ?f0] exI [of _ ?seg]) auto
  next
    case True
    let ?sig = "the (matchSignature (the (messageOf e)))"
    from lookup obtain status w4 where
      st: "getSignatureStatus conn ?sig w3 = (Inr status, w4)" and pending: "\<not> isFinalized status"
      by blast
    let ?f1 = "?f0\<lparr>world := w4, trace := trace ?f0 @ [GetSignatureStatus ?sig (Inr status)]\<rparr>"
    have "catchBlock conn maxRetries i e ?f0 = Normal (countAttempt conn maxRetries i e ?f1)"
      using sig True st pending
      by (simp add: catchBlock_def truthy_def Let_def awaitGetSignatureStatus_def)
    with body expired sig same show ?thesis
      by (intro exI [of _ e] exI [of _ ?f1]
          exI [of _ "?seg @ [GetSignatureStatus ?sig (Inr status)]"]) auto
  qed
qed

lemma rejected_after_retries:
  assumes submit: "\<forall>w. \<exists>blockhash lastValid w1 height w2 e w3.
        getLatestBlockhash conn w = (Inr (blockhash, lastValid), w1)
      \<and> getBlockHeight conn w1 = (Inr height, w2)
      \<and> \<not> height > lastValid
      \<and> sendAndConfirmTransaction conn (tx\<lparr>recentBlockhash := Some blockhash\<rparr>) w2 = (Inl e, w3)
      \<and> isTransactionExpiredBlockheightExceededError e"
    and lookup: "\<forall>sig w. \<exists>status w'.
        getSignatureStatus conn sig w = (Inr status, w') \<and> \<not> isFinalized status"
  shows "n = nat (maxRetries - attempt f) \<Longrightarrow> attempt f \<le> maxRetries \<Longrightarrow> \<not> success f \<Longrightarrow>
    signature f = None \<Longrightarrow> transaction f = tx\<lparr>recentBlockhash := b\<rparr> \<Longrightarrow>
    \<exists>f' e seg. whileLoop conn maxRetries i f = Inr f'
      \<and> results f' = results f @ [Rejected e]
      \<and> trace f' = trace f @ seg
      \<and> int (length (submissions seg)) = maxRetries + 1 - attempt f
      \<and> last (submissions seg) = (i, Inl e)
      \<and> settled seg = [(i, Rejected e)]
      \<and> isTransactionExpiredBlockheightExceededError e
      \<and> attempt f' = maxRetries + 1"
proof (induction n arbitrary: f b)
  case 0
  then have last: "attempt f = maxRetries" by simp
  from rejected_attempt [OF submit lookup "0.prems"(4,5), of maxRetries i]
  obtain e f1 seg where
    body: "whileBody conn maxRetries i f = Normal (countAttempt conn maxRetries i e f1)"
    and e: "isTransactionExpiredBlockheightExceededError e"
    and f1: "trace f1 = trace f @ seg" "submissions seg = [(i, Inl e)]" "settled seg = []"
      "results f1 = results f" "attempt f1 = attempt f"
    by blast
  let ?f' = "countAttempt conn maxRetries i e f1"
  have "whileLoop conn maxRetries i f = Inr ?f'"
    using "0.prems"(2,3) last f1(5)
    by (simp add: whileLoop_step body whileLoop_done countAttempt_fields)
  moreover have "trace ?f' = trace f @ (seg @ [ResultsPush i (Rejected e)])"
    using last f1 by (simp add: countAttempt_fields)
  moreover have "results ?f' = results f @ [Rejected e]"
    using last f1 by (simp add: countAttempt_fields)
  moreover have "attempt ?f' = maxRetries + 1"
    using last f1 by (simp add: countAttempt_fields)
  ultimately show ?case
    using e f1(2,3) last
    by (intro exI [of _ ?f'] exI [of _ e] exI [of _ "seg @ [ResultsPush i (Rejected e)]"])
      (simp add: submissions_append settled_append)
next
  case (Suc n)
  then have more: "attempt f < maxRetries" by linarith
  from rejected_attempt [OF submit lookup Suc.prems(4,5), of maxRetries i]
  obtain e f1 seg b' where
    body: "whileBody conn maxRetries i f = Normal (countAttempt conn maxRetries i e f1)"
    and f1: "trace f1 = trace f @ seg" "submissions seg = [(i, Inl e)]" "settled seg = []"
      "results f1 = results f" "attempt f1 = attempt f" "signature f1 = None"
      "success f1 = success f" "transaction f1 = tx\<lparr>recentBlockhash := b'\<rparr>"
    by blast
  let ?g = "countAttempt conn maxRetries i e f1"
  have g: "attempt ?g = attempt f + 1" "\<not> success ?g" "signature ?g = None"
    "transaction ?g = tx\<lparr>recentBlockhash := b'\<rparr>"
    "trace ?g = trace f @ (seg @ [SetTimeout TX_INTERVAL])" "results ?g = results f"
    using f1 more Suc.prems(3) by (simp_all add: countAttempt_fields)
  have n: "n = nat (maxRetries - attempt ?g)" using Suc.prems(1) g(1) by linarith
  have le: "attempt ?g \<le> maxRetries" using more g(1) by simp
  from Suc.IH [OF n le g(2,3,4)] obtain f' e' seg' where
    run: "whileLoop conn maxRetries i ?g = Inr f'"
    and f': "results f' = results ?g @ [Rejected e']" "trace f' = trace ?g @ seg'"
      "int (length (submissions seg')) = maxRetries + 1 - attempt ?g"
      "last (submissions seg') = (i, Inl e')" "settled seg' = [(i, Rejected e')]"
      "isTransactionExpiredBlockheightExceededError e'" "attempt f' = maxRetries + 1"
    by blast
  have ne: "submissions seg' \<noteq> []" using f'(3) le by auto
  have "whileLoop conn maxRetries i f = Inr f'"
    using Suc.prems(2,3) by (simp add: whileLoop_step body run)
  moreover have "trace f' = trace f @ (seg @ [SetTimeout TX_INTERVAL] @ seg')"
    using f'(2) g(5) by simp
  moreover have "int (length (submissions (seg @ [SetTimeout TX_INTERVAL] @ seg')))
      = maxRetries + 1 - attempt f"
    using f'(3) g(1) f1(2) by (simp add: submissions_append)
  moreover have "last (submissions (seg @ [SetTimeout TX_INTERVAL] @ seg')) = (i, Inl e')"
    using f'(4) ne f1(2) by (simp add: submissions_append)
  moreover have "settled (seg @ [SetTimeout TX_INTERVAL] @ seg') = [(i, Rejected e')]"
    using f'(5) f1(3) by (simp add: settled_append)
  ultimately show ?case
    using f'(1,6,7) g(6)
    by (intro exI [of _ f'] exI [of _ e'] exI [of _ "seg @ [SetTimeout TX_INTERVAL] @ seg'"]) simp
qed

lemma inOrder_settled_indices:
  "inOrder k a \<Longrightarrow> map fst (settled a) = [k..<k + length (settled a)]"
  by (induction k a rule: inOrder.induct) (simp_all del: upt_Suc add: upt_conv_Cons)

lemma settled_mem: "(j, out) \<in> set (settled a) \<Longrightarrow> ResultsPush j out \<in> set a"
  by (induction a rule: settled.induct) auto

lemma inOrder_precedes:
  assumes "inOrder 0 tr" and "p < length tr"
    and "tr ! p = SendAndConfirmTransaction (Suc j) x"
  shows "\<exists>q<p. \<exists>out. tr ! q = ResultsPush j out"
proof -
  have "tr = take p tr @ tr ! p # drop (Suc p) tr"
    using assms(2) by (rule id_take_nth_drop)
  with assms(1) have "inOrder 0 (take p tr @ tr ! p # drop (Suc p) tr)" by simp
  then have before: "inOrder 0 (take p tr)"
    and "inOrder (length (settled (take p tr))) (tr ! p # drop (Suc p) tr)"
    by (simp_all add: inOrder_append)
  then have "Suc j = length (settled (take p tr))" using assms(3) by simp
  with inOrder_settled_indices [OF before] have "j \<in> set (map fst (settled (take p tr)))"
    by simp
  then obtain out where "(j, out) \<in> set (settled (take p tr))" by auto
  then have "ResultsPush j out \<in> set (take p tr)" by (rule settled_mem)
  then obtain q where "q < length (take p tr)" and "take p tr ! q = ResultsPush j out"
    by (auto simp: in_set_conv_nth)
  then show ?thesis using assms(2) by auto
qed


lemma whileBody_local_expiry:
  assumes "getLatestBlockhash conn (world f) = (Inr (blockhash, lastValid), w1)"
    and "getBlockHeight conn w1 = (Inr height, w2)"
    and "height > lastValid"
  shows "whileBody conn maxRetries i f =
     Normal (countAttempt conn maxRetries i (expiredError i height lastValid)
       (f\<lparr>transaction := (transaction f)\<lparr>recentBlockhash := Some blockhash\<rparr>,
          world := w2,
          trace := trace f @ [GetLatestBlockhash (Inr (blockhash, lastValid)),
            GetBlockHeight (Inr height)]\<rparr>))"
  using assms
  by (simp add: whileBody_def tryBlock_def await_defs catchBlock_def expiredError_no_match
      truthy_def)

text \<open>While a transaction has not succeeded, \<^verbatim>\<open>signature\<close> keeps its value, \<^verbatim>\<open>null\<close>.\<close>

lemma tryBlock_signature:
  "tryBlock conn i f = (t, f1) \<Longrightarrow>
     (case t of None \<Rightarrow> success f1 | Some e \<Rightarrow> signature f1 = signature f)"
  unfolding tryBlock_def await_defs push_def
  by (auto split: prod.splits sum.splits if_splits)

lemma catchBlock_signature:
  "catchBlock conn maxRetries i e f = Normal f1 \<Longrightarrow> signature f1 = signature f"
  unfolding catchBlock_def awaitGetSignatureStatus_def Let_def
  by (auto simp: countAttempt_fields split: prod.splits sum.splits if_splits)

lemma whileBody_signature:
  assumes "whileBody conn maxRetries i f = Normal f1" and "\<not> success f1"
  shows "signature f1 = signature f"
proof (cases "tryBlock conn i f")
  case (Pair t g)
  note tb = tryBlock_signature [OF Pair]
  show ?thesis
  proof (cases t)
    case None
    with assms Pair tb show ?thesis by (simp add: whileBody_def)
  next
    case (Some e)
    with assms(1) Pair have "catchBlock conn maxRetries i e g = Normal f1"
      by (simp add: whileBody_def)
    from catchBlock_signature [OF this] tb Some show ?thesis by simp
  qed
qed

lemma matchSignature_marker:
  assumes "sig \<noteq> []" and "\<forall>c \<in> set sig. isWordChar c" and "\<not> isWordChar c'"
  shows "matchSignature (''Signature '' @ sig @ c' # rest) = Some sig"
proof -
  have "takeWhile isWordChar (sig @ c' # rest) = sig"
    using assms(2,3) by (simp add: takeWhile_tail)
  with assms(1) show ?thesis by simp
qed

lemma typed_expiry_message:
  assumes "sig \<noteq> []" and "\<forall>c \<in> set sig. isWordChar c"
  shows "isTransactionExpiredBlockheightExceededError (TransactionExpiredBlockheightExceededError sig)"
    and "isErrorWithMessage (TransactionExpiredBlockheightExceededError sig)"
    and "matchSignature (the (messageOf (TransactionExpiredBlockheightExceededError sig))) = Some sig"
proof -
  have "\<not> isWordChar (CHR '' '')" by (simp add: isWordChar_def)
  from matchSignature_marker [OF assms this, of "''has expired: block height exceeded.''"]
  show "matchSignature (the (messageOf (TransactionExpiredBlockheightExceededError sig))) = Some sig"
    by (simp add: TransactionExpiredBlockheightExceededError_def)
qed (simp_all add: TransactionExpiredBlockheightExceededError_def isErrorWithMessage_def)

lemma catchBlock_answers:
  assumes "\<forall>sig w. \<exists>status w'. getSignatureStatus conn sig w = (Inr status, w')"
  shows "catchBlock conn maxRetries i e f \<noteq> Throw e' f'"
proof -
  have answer: "\<exists>status f1. awaitGetSignatureStatus conn sig f = (Inr status, f1)" for sig
  proof -
    from assms obtain status w' where "getSignatureStatus conn sig (world f) = (Inr status, w')"
      by blast
    then show ?thesis by (simp add: awaitGetSignatureStatus_def)
  qed
  from answer [of "the (signature f)"] obtain s1 g1 where
    a1: "awaitGetSignatureStatus conn (the (signature f)) f = (Inr s1, g1)" by blast
  from answer [of "the (matchSignature (the (messageOf e)))"] obtain s2 g2 where
    a2: "awaitGetSignatureStatus conn (the (matchSignature (the (messageOf e)))) f = (Inr s2, g2)"
    by blast
  show ?thesis by (simp add: catchBlock_def Let_def a1 a2)
qed

lemma whileBody_answers:
  assumes "\<forall>sig w. \<exists>status w'. getSignatureStatus conn sig w = (Inr status, w')"
  shows "whileBody conn maxRetries i f \<noteq> Throw e' f'"
proof (cases "tryBlock conn i f")
  case (Pair t f1)
  then show ?thesis
    using catchBlock_answers [OF assms] by (cases t) (simp_all add: whileBody_def)
qed

lemma whileLoop_returns:
  assumes "\<forall>sig w. \<exists>status w'. getSignatureStatus conn sig w = (Inr status, w')"
  shows "\<exists>f'. whileLoop conn maxRetries i f = Inr f'"
  using assms
proof (induction conn maxRetries i f rule: whileLoop.induct)
  case (1 conn maxRetries i f)
  show ?case
  proof (cases "attempt f \<le> maxRetries \<and> \<not> success f")
    case False
    then show ?thesis by (auto simp: whileLoop_done)
  next
    case True
    then have step: "whileLoop conn maxRetries i f =
       (case whileBody conn maxRetries i f of
          Normal f1 \<Rightarrow> whileLoop conn maxRetries i f1
        | Break f1 \<Rightarrow> Inr f1
        | Throw e f1 \<Rightarrow> Inl (e, f1))"
      by (simp add: whileLoop_step)
    show ?thesis
    proof (cases "whileBody conn maxRetries i f")
      case (Normal f1)
      from "1.IH" [OF True Normal "1.prems"] step Normal show ?thesis by simp
    next
      case (Break f1)
      with step show ?thesis by simp
    next
      case (Throw e f1)
      with whileBody_answers [OF "1.prems"] show ?thesis by blast
    qed
  qed
qed

lemma forLoop_returns:
  assumes "\<forall>sig w. \<exists>status w'. getSignatureStatus conn sig w = (Inr status, w')"
  shows "\<exists>r'. forLoop conn maxRetries len i transactionList r = Inr r'"
proof (induction transactionList arbitrary: i r)
  case Nil
  then show ?case by simp
next
  case (Cons tx rest)
  from whileLoop_returns [OF assms] obtain f where
    "whileLoop conn maxRetries i (enter r tx) = Inr f" by blast
  with Cons.IH show ?case by simp
qed

lemmas run_defs = executeTransactions_def enter_def leave_def whileBody_def tryBlock_def
  catchBlock_def countAttempt_def push_def delay_def await_defs TX_INTERVAL_def
  truthy_def isErrorWithMessage_def isFinalized_def isWordChar_def Let_def
  scripted_def start_def payment_def

section \<open>The batcher: claims\<close>

text \<open>
  C1. For a capacity \<open>batchSize \<ge> 1\<close> and the instruction list \<open>txInstructions\<close> of
  length \<open>N\<close> built from the drops, \<open>generateTransactions\<close> returns; it returns
  \<open>\<lceil>N / batchSize\<rceil>\<close> transactions, each of at most \<open>batchSize\<close> instructions, with \<open>N\<close>
  instructions in all, and the transactions in order, one after the other, are the
  instruction list.
\<close>

theorem generateTransactions_partition:
  assumes "1 \<le> batchSize"
    and "mapTransfer PublicKey transfer LAMPORTS_PER_SOL fromWallet amount dropList = Inr txInstructions"
  shows "\<exists>result.
      generateTransactions PublicKey transfer LAMPORTS_PER_SOL batchSize dropList fromWallet amount
        = Some (Inr result)
    \<and> int (length result) = \<lceil>real (length txInstructions) / real_of_int batchSize\<rceil>
    \<and> (\<forall>tx \<in> set result. int (length (instructions tx)) \<le> batchSize)
    \<and> sum_list (map (\<lambda>tx. length (instructions tx)) result) = length txInstructions
    \<and> concat (map instructions result) = txInstructions"
  using assms by (rule generateTransactions_partition_lemma)

theorem generateTransactions_partition_witness:
  "(1 :: int) \<le> 2
   \<and> mapTransfer Inr sampleTransfer (Number 1000000000) ''payer'' (Number 1)
        [\<lparr>owner = ''a'', address = ''x''\<rparr>, \<lparr>owner = ''b'', address = ''y''\<rparr>,
         \<lparr>owner = ''c'', address = ''z''\<rparr>]
      = Inr [\<lparr>fromPubkey = ''payer'', toPubkey = ''a'', lamports = Number 1000000000\<rparr>,
             \<lparr>fromPubkey = ''payer'', toPubkey = ''b'', lamports = Number 1000000000\<rparr>,
             \<lparr>fromPubkey = ''payer'', toPubkey = ''c'', lamports = Number 1000000000\<rparr>]
   \<and> generateTransactions Inr sampleTransfer (Number 1000000000) 2
        [\<lparr>owner = ''a'', address = ''x''\<rparr>, \<lparr>owner = ''b'', address = ''y''\<rparr>,
         \<lparr>owner = ''c'', address = ''z''\<rparr>] ''payer'' (Number 1)
      = Some (Inr
          [\<lparr>instructions =
              [\<lparr>fromPubkey = ''payer'', toPubkey = ''a'', lamports = Number 1000000000\<rparr>,
               \<lparr>fromPubkey = ''payer'', toPubkey = ''b'', lamports = Number 1000000000\<rparr>],
            recentBlockhash = None\<rparr>,
           \<lparr>instructions =
              [\<lparr>fromPubkey = ''payer'', toPubkey = ''c'', lamports = Number 1000000000\<rparr>],
            recentBlockhash = None\<rparr>])"
proof -
  let ?drops = "[\<lparr>owner = ''a'', address = ''x''\<rparr>, \<lparr>owner = ''b'', address = ''y''\<rparr>,
         \<lparr>owner = ''c'', address = ''z''\<rparr>]"
  let ?ins = "[\<lparr>fromPubkey = ''payer'', toPubkey = ''a'', lamports = Number 1000000000\<rparr>,
               \<lparr>fromPubkey = ''payer'', toPubkey = ''b'', lamports = Number 1000000000\<rparr>,
               \<lparr>fromPubkey = ''payer'', toPubkey = ''c'', lamports = Number 1000000000\<rparr>]"
  have cap: "(1 :: int) \<le> 2" by simp
  have ins: "mapTransfer Inr sampleTransfer (Number 1000000000) ''payer'' (Number 1) ?drops
      = Inr ?ins"
    by (simp add: roundDouble_numeral sampleTransfer_def)
  from generateTransactions_partition [OF cap ins] obtain result where
    run: "generateTransactions Inr sampleTransfer (Number 1000000000) 2 ?drops ''payer'' (Number 1)
      = Some (Inr result)"
    and len: "int (length result) = \<lceil>real (length ?ins) / real_of_int 2\<rceil>"
    and each: "\<forall>tx \<in> set result. int (length (instructions tx)) \<le> 2"
    and cat: "concat (map instructions result) = ?ins"
    by blast
  have "generateTransactions Inr sampleTransfer (Number 1000000000) 2 ?drops ''payer'' (Number 1)
      = Some (Inr
          [\<lparr>instructions =
              [\<lparr>fromPubkey = ''payer'', toPubkey = ''a'', lamports = Number 1000000000\<rparr>,
               \<lparr>fromPubkey = ''payer'', toPubkey = ''b'', lamports = Number 1000000000\<rparr>],
            recentBlockhash = None\<rparr>,
           \<lparr>instructions =
              [\<lparr>fromPubkey = ''payer'', toPubkey = ''c'', lamports = Number 1000000000\<rparr>],
            recentBlockhash = None\<rparr>])"
    by (simp add: generateTransactions_def roundDouble_numeral sampleTransfer_def ceilDiv_def
        outerLoop.simps innerLoop.simps element_def add_def newTransaction_def)
  with run cap ins show ?thesis by simp
qed

text \<open>
  C2, as the code has it. No capacity is refused and none raises an error of its own.
  With a capacity below 1, when the map that builds the instruction list throws, which it
  does before the capacity is looked at, the call throws that exception; otherwise a
  negative capacity, and the capacity 0 on an empty list, return no transaction at all,
  and the capacity 0 on a list that is not empty does not return.
\<close>

theorem generateTransactions_capacity_below_one:
  assumes "batchSize < 1"
  shows "generateTransactions PublicKey transfer LAMPORTS_PER_SOL batchSize dropList fromWallet amount =
     (case mapTransfer PublicKey transfer LAMPORTS_PER_SOL fromWallet amount dropList of
        Inl e \<Rightarrow> Some (Inl e)
      | Inr txInstructions \<Rightarrow>
          if batchSize = 0 \<and> txInstructions \<noteq> [] then None else Some (Inr []))"
proof (cases "mapTransfer PublicKey transfer LAMPORTS_PER_SOL fromWallet amount dropList")
  case (Inl e)
  then show ?thesis by (simp add: generateTransactions_def)
next
  case (Inr xs)
  show ?thesis
  proof (cases "batchSize = 0")
    case True
    then show ?thesis
      using Inr by (cases xs) (simp_all add: generateTransactions_def ceilDiv_def outerLoop_PosInfinity outerLoop_stop)
  next
    case False
    then have neg: "real_of_int batchSize < 0" using assms by simp
    have "real (length xs) / real_of_int batchSize \<le> 0"
      using neg by (simp add: divide_nonneg_neg)
    then have "\<lceil>real (length xs) / real_of_int batchSize\<rceil> \<le> 0"
      by (simp add: ceiling_le_iff)
    then have "\<not> lessNumber 0 (ceilDiv (length xs) batchSize)"
      using False by (simp add: ceilDiv_def)
    then show ?thesis
      using Inr False by (simp add: generateTransactions_def outerLoop_stop)
  qed
qed

theorem generateTransactions_capacity_below_one_witness:
  "(- 1 :: int) < 1
   \<and> generateTransactions Inr sampleTransfer (Number 1000000000) (- 1)
        [\<lparr>owner = ''a'', address = ''x''\<rparr>] ''payer'' (Number 1)
      = Some (Inr [])
   \<and> (0 :: int) < 1
   \<and> generateTransactions Inr sampleTransfer (Number 1000000000) 0
        [\<lparr>owner = ''a'', address = ''x''\<rparr>] ''payer'' (Number 1)
      = None"
  using generateTransactions_capacity_below_one
      [where batchSize = "- 1" and PublicKey = Inr and transfer = sampleTransfer
        and LAMPORTS_PER_SOL = "Number 1000000000"
        and dropList = "[\<lparr>owner = ''a'', address = ''x''\<rparr>]" and fromWallet = "''payer''"
        and amount = "Number 1"]
    generateTransactions_capacity_below_one
      [where batchSize = 0 and PublicKey = Inr and transfer = sampleTransfer
        and LAMPORTS_PER_SOL = "Number 1000000000"
        and dropList = "[\<lparr>owner = ''a'', address = ''x''\<rparr>]" and fromWallet = "''payer''"
        and amount = "Number 1"]
  by (simp add: roundDouble_numeral sampleTransfer_def)

text \<open>
  C2, as the claim states it, fails: with the capacity \<open>-1\<close> the call returns a result,
  the empty list, and throws nothing.
\<close>

theorem generateTransactions_negative_capacity_returns:
  "generateTransactions Inr sampleTransfer (Number 1000000000) (- 1)
      [\<lparr>owner = ''a'', address = ''x''\<rparr>] ''payer'' (Number 1)
     = Some (Inr [])"
  by (simp add: generateTransactions_def roundDouble_numeral sampleTransfer_def ceilDiv_def outerLoop_stop)

text \<open>
  C10, as the code has it. For a capacity \<open>batchSize \<ge> 1\<close> and any drops and any amount,
  \<open>generateTransactions\<close> returns, or throws what the \<open>PublicKey\<close> constructor or
  \<^verbatim>\<open>SystemProgram.transfer\<close> threw on a drop. When it returns, the instructions of the
  transactions, in order, are as many as the drops, and the \<open>i\<close>-th of them is the
  instruction that \<^verbatim>\<open>SystemProgram.transfer\<close> made from \<open>fromWallet\<close>, the key made of the
  owner field of the \<open>i\<close>-th drop, and the lamports \<^verbatim>\<open>amount * LAMPORTS_PER_SOL\<close>, a product
  of doubles: the exact product rounded to the nearest double. For whole numbers whose
  product is from 0 to \<open>2 ^ 53\<close> this is the exact product.
\<close>

theorem generateTransactions_transfers:
  assumes "1 \<le> batchSize"
  shows "(case generateTransactions PublicKey transfer LAMPORTS_PER_SOL batchSize dropList
            fromWallet amount of
      None \<Rightarrow> False
    | Some (Inl e) \<Rightarrow>
        \<exists>d \<in> set dropList.
          PublicKey (owner d) = Inl e \<or>
          (\<exists>key. PublicKey (owner d) = Inr key \<and>
             transfer \<lparr>fromPubkey = fromWallet, toPubkey = key,
               lamports = multiply amount LAMPORTS_PER_SOL\<rparr> = Inl e)
    | Some (Inr result) \<Rightarrow>
        length (concat (map instructions result)) = length dropList \<and>
        (\<forall>i < length dropList. \<exists>key.
           PublicKey (owner (dropList ! i)) = Inr key \<and>
           transfer \<lparr>fromPubkey = fromWallet, toPubkey = key,
             lamports = multiply amount LAMPORTS_PER_SOL\<rparr>
             = Inr (concat (map instructions result) ! i)))
   \<and> (\<forall>a b. amount = Number (of_int a) \<and> LAMPORTS_PER_SOL = Number (of_int b)
          \<and> 0 \<le> a * b \<and> a * b \<le> 2 ^ 53
        \<longrightarrow> multiply amount LAMPORTS_PER_SOL = Number (of_int (a * b)))"
proof -
  have first: "case generateTransactions PublicKey transfer LAMPORTS_PER_SOL batchSize dropList
            fromWallet amount of
      None \<Rightarrow> False
    | Some (Inl e) \<Rightarrow>
        \<exists>d \<in> set dropList.
          PublicKey (owner d) = Inl e \<or>
          (\<exists>key. PublicKey (owner d) = Inr key \<and>
             transfer \<lparr>fromPubkey = fromWallet, toPubkey = key,
               lamports = multiply amount LAMPORTS_PER_SOL\<rparr> = Inl e)
    | Some (Inr result) \<Rightarrow>
        length (concat (map instructions result)) = length dropList \<and>
        (\<forall>i < length dropList. \<exists>key.
           PublicKey (owner (dropList ! i)) = Inr key \<and>
           transfer \<lparr>fromPubkey = fromWallet, toPubkey = key,
             lamports = multiply amount LAMPORTS_PER_SOL\<rparr>
             = Inr (concat (map instructions result) ! i))"
  proof (cases "mapTransfer PublicKey transfer LAMPORTS_PER_SOL fromWallet amount dropList")
    case (Inl e)
    then have "generateTransactions PublicKey transfer LAMPORTS_PER_SOL batchSize dropList
        fromWallet amount = Some (Inl e)"
      by (simp add: generateTransactions_def)
    with mapTransfer_Inl [OF Inl] show ?thesis by simp
  next
    case (Inr txInstructions)
    from generateTransactions_partition_lemma [OF assms Inr] obtain result where
      run: "generateTransactions PublicKey transfer LAMPORTS_PER_SOL batchSize dropList
        fromWallet amount = Some (Inr result)"
      and cat: "concat (map instructions result) = txInstructions"
      by blast
    from mapTransfer_Inr [OF Inr] run cat show ?thesis by simp
  qed
  from first multiply_whole show ?thesis by blast
qed

theorem generateTransactions_transfers_witness:
  "(1 :: int) \<le> 5
   \<and> generateTransactions Inr sampleTransfer (Number 1000000000) 5
        [\<lparr>owner = ''a'', address = ''x''\<rparr>, \<lparr>owner = ''b'', address = ''y''\<rparr>] ''payer''
        (Number 3)
      = Some (Inr
          [\<lparr>instructions =
              [\<lparr>fromPubkey = ''payer'', toPubkey = ''a'', lamports = Number 3000000000\<rparr>,
               \<lparr>fromPubkey = ''payer'', toPubkey = ''b'', lamports = Number 3000000000\<rparr>],
            recentBlockhash = None\<rparr>])
   \<and> multiply (Number 3) (Number 1000000000) = Number (of_int (3 * 1000000000))"
proof -
  have cap: "(1 :: int) \<le> 5" by simp
  have run: "generateTransactions Inr sampleTransfer (Number 1000000000) 5
        [\<lparr>owner = ''a'', address = ''x''\<rparr>, \<lparr>owner = ''b'', address = ''y''\<rparr>] ''payer''
        (Number 3)
      = Some (Inr
          [\<lparr>instructions =
              [\<lparr>fromPubkey = ''payer'', toPubkey = ''a'', lamports = Number 3000000000\<rparr>,
               \<lparr>fromPubkey = ''payer'', toPubkey = ''b'', lamports = Number 3000000000\<rparr>],
            recentBlockhash = None\<rparr>])"
    by (simp add: generateTransactions_def roundDouble_numeral sampleTransfer_def ceilDiv_def
        outerLoop.simps innerLoop.simps element_def add_def newTransaction_def)
  from generateTransactions_transfers [OF cap, where PublicKey = Inr
      and transfer = sampleTransfer
      and LAMPORTS_PER_SOL = "Number 1000000000" and fromWallet = "''payer''"
      and amount = "Number 3"
      and dropList = "[\<lparr>owner = ''a'', address = ''x''\<rparr>, \<lparr>owner = ''b'', address = ''y''\<rparr>]"]
  have "multiply (Number 3) (Number 1000000000) = Number (of_int (3 * 1000000000))"
    by (auto dest!: conjunct2 spec [of _ 3] spec [of _ 1000000000])
  with cap run show ?thesis by simp
qed

text \<open>
  C10, as the claim states it, fails: for the amount 10000000001 the instruction carries
  10000000000999999488 lamports, 512 less than the product of the amount by
  \<^verbatim>\<open>LAMPORTS_PER_SOL\<close>, which is not a double.
\<close>

theorem generateTransactions_rounds_lamports:
  "generateTransactions Inr sampleTransfer (Number 1000000000) 5
      [\<lparr>owner = ''a'', address = ''x''\<rparr>] ''payer'' (Number 10000000001)
     = Some (Inr
         [\<lparr>instructions =
             [\<lparr>fromPubkey = ''payer'', toPubkey = ''a'', lamports = Number 10000000000999999488\<rparr>],
           recentBlockhash = None\<rparr>])
   \<and> (10000000000999999488 :: rat) \<noteq> 10000000001 * 1000000000"
proof -
  have "multiply (Number 10000000001) (Number 1000000000) = Number 10000000000999999488"
    by (simp add: double_defs)
  then show ?thesis
    by (simp add: generateTransactions_def sampleTransfer_def ceilDiv_def
        outerLoop.simps innerLoop.simps element_def add_def newTransaction_def)
qed

section \<open>The runner: claims\<close>

text \<open>
  C3. The variable \<^verbatim>\<open>signature\<close> is assigned only when the submission returns, so in the
  \<^verbatim>\<open>catch\<close> clause it is still \<^verbatim>\<open>null\<close>; the reference id of the submitted transaction is
  the one the typed expiry error carries. In an attempt of the loop where the submission
  raises the typed expiry error of the signature \<open>sig\<close> and the status lookup of \<open>sig\<close>
  reports \<open>finalized\<close>, the loop returns at once: the outcome pushed is \<open>Fulfilled sig\<close>
  and nothing is submitted again.
\<close>

theorem typed_expiry_fulfils:
  assumes "attempt f \<le> maxRetries" and "\<not> success f" and "signature f = None"
    and "getLatestBlockhash conn (world f) = (Inr (blockhash, lastValid), w1)"
    and "getBlockHeight conn w1 = (Inr height, w2)"
    and "\<not> height > lastValid"
    and "sendAndConfirmTransaction conn ((transaction f)\<lparr>recentBlockhash := Some blockhash\<rparr>) w2
          = (Inl (TransactionExpiredBlockheightExceededError sig), w3)"
    and "sig \<noteq> []" and "\<forall>c \<in> set sig. isWordChar c"
    and "getSignatureStatus conn sig w3 = (Inr status, w4)"
    and "isFinalized status"
  shows "whileLoop conn maxRetries i f =
     Inr (f\<lparr>transaction := (transaction f)\<lparr>recentBlockhash := Some blockhash\<rparr>,
          success := True,
          world := w4,
          trace := trace f @ [GetLatestBlockhash (Inr (blockhash, lastValid)),
            GetBlockHeight (Inr height),
            SendAndConfirmTransaction i (Inl (TransactionExpiredBlockheightExceededError sig)),
            GetSignatureStatus sig (Inr status),
            ResultsPush i (Fulfilled sig)],
          results := results f @ [Fulfilled sig]\<rparr>)"
proof -
  note typed = typed_expiry_message [OF assms(8,9)]
  have "whileBody conn maxRetries i f =
     Break (f\<lparr>transaction := (transaction f)\<lparr>recentBlockhash := Some blockhash\<rparr>,
          success := True,
          world := w4,
          trace := trace f @ [GetLatestBlockhash (Inr (blockhash, lastValid)),
            GetBlockHeight (Inr height),
            SendAndConfirmTransaction i (Inl (TransactionExpiredBlockheightExceededError sig)),
            GetSignatureStatus sig (Inr status),
            ResultsPush i (Fulfilled sig)],
          results := results f @ [Fulfilled sig]\<rparr>)"
    using assms(3,8,10,11) typed(2,3)
    by (simp add: whileBody_submission_thrown [OF assms(4-7)] catchBlock_def
        truthy_def awaitGetSignatureStatus_def push_def)
  then show ?thesis
    using assms(1,2) by (simp add: whileLoop_step)
qed

theorem typed_expiry_fulfils_witness:
  "whileLoop (scripted 50 (Inl (TransactionExpiredBlockheightExceededError ''5sig'')) (Inr landed))
       3 0 (enter start payment) =
     Inr \<lparr>world = (),
          trace = [GetLatestBlockhash (Inr (''hash'', 100)), GetBlockHeight (Inr 50),
            SendAndConfirmTransaction 0 (Inl (TransactionExpiredBlockheightExceededError ''5sig'')),
            GetSignatureStatus ''5sig'' (Inr landed),
            ResultsPush 0 (Fulfilled ''5sig'')],
          results = [Fulfilled ''5sig''],
          transaction = payment\<lparr>recentBlockhash := Some ''hash''\<rparr>,
          attempt = 0, success = True, signature = None\<rparr>"
proof -
  let ?conn = "scripted 50 (Inl (TransactionExpiredBlockheightExceededError ''5sig'')) (Inr landed)"
  let ?f = "enter start payment"
  have more: "attempt ?f \<le> 3" and going: "\<not> success ?f" and unset: "signature ?f = None"
    by (simp_all add: enter_def)
  have glb: "getLatestBlockhash ?conn (world ?f) = (Inr (''hash'', 100), ())"
    and gbh: "getBlockHeight ?conn () = (Inr 50, ())"
    and fresh: "\<not> (50 :: int) > 100"
    and send: "sendAndConfirmTransaction ?conn ((transaction ?f)\<lparr>recentBlockhash := Some ''hash''\<rparr>) ()
        = (Inl (TransactionExpiredBlockheightExceededError ''5sig''), ())"
    and named: "''5sig'' \<noteq> []"
    and word: "\<forall>c \<in> set ''5sig''. isWordChar c"
    and status: "getSignatureStatus ?conn ''5sig'' () = (Inr landed, ())"
    and final: "isFinalized landed"
    by (simp_all add: scripted_def landed_def isFinalized_def isWordChar_def)
  from typed_expiry_fulfils
    [OF more going unset glb gbh fresh send named word status final, where i = 0]
  show ?thesis by (simp add: enter_def start_def)
qed

text \<open>
  C4, at a failing input. The status lookup is awaited inside the \<^verbatim>\<open>catch\<close> clause, where
  nothing catches its rejection: with two transactions, a submission that raises an error
  naming a signature and a status lookup that fails, \<open>executeTransactions\<close> rejects with
  the lookup's error, no outcome is returned and the second transaction is never tried.
\<close>

theorem lookup_failure_escapes:
  "executeTransactions (scripted 50 (Inl timedOut) (Inl fetchFailed)) [payment, payment] 3 () =
     (Inl fetchFailed, (),
      [GetLatestBlockhash (Inr (''hash'', 100)), GetBlockHeight (Inr 50),
       SendAndConfirmTransaction 0 (Inl timedOut),
       GetSignatureStatus ''5sig'' (Inl fetchFailed)])"
  by (simp add: run_defs whileLoop.simps timedOut_def fetchFailed_def)

text \<open>
  C5. With \<open>maxRetries \<ge> 0\<close>, when in every state of the network the submission is
  reached and raises a typed expiry error, and every status lookup answers and does not
  report \<open>finalized\<close>, the loop of a transaction returns with the outcome \<open>Rejected e\<close>,
  \<open>e\<close> being the error of the last submission; the transaction has been submitted
  \<open>maxRetries + 1\<close> times and this outcome is the only one pushed.
\<close>

theorem expired_every_attempt_rejects:
  assumes "0 \<le> maxRetries"
    and "\<forall>w. \<exists>blockhash lastValid w1 height w2 e w3.
        getLatestBlockhash conn w = (Inr (blockhash, lastValid), w1)
      \<and> getBlockHeight conn w1 = (Inr height, w2)
      \<and> \<not> height > lastValid
      \<and> sendAndConfirmTransaction conn (tx\<lparr>recentBlockhash := Some blockhash\<rparr>) w2 = (Inl e, w3)
      \<and> isTransactionExpiredBlockheightExceededError e"
    and "\<forall>sig w. \<exists>status w'.
        getSignatureStatus conn sig w = (Inr status, w') \<and> \<not> isFinalized status"
  shows "\<exists>f e seg. whileLoop conn maxRetries i (enter r tx) = Inr f
      \<and> results f = results r @ [Rejected e]
      \<and> trace f = trace r @ seg
      \<and> int (length (submissions seg)) = maxRetries + 1
      \<and> last (submissions seg) = (i, Inl e)
      \<and> settled seg = [(i, Rejected e)]
      \<and> isTransactionExpiredBlockheightExceededError e
      \<and> attempt f = maxRetries + 1"
proof -
  have "transaction (enter r tx) = tx\<lparr>recentBlockhash := recentBlockhash tx\<rparr>"
    by (simp add: enter_def)
  from rejected_after_retries [OF assms(2,3) refl _ _ _ this, of maxRetries i] assms(1)
  show ?thesis by (simp add: enter_def)
qed

theorem expired_every_attempt_rejects_witness:
  "(\<exists>f e seg.
      whileLoop (scripted 50 (Inl expiredWithMarker) (Inr None)) 1 0 (enter start payment) = Inr f
      \<and> results f = results start @ [Rejected e]
      \<and> trace f = trace start @ seg
      \<and> int (length (submissions seg)) = 1 + 1
      \<and> last (submissions seg) = (0, Inl e)
      \<and> settled seg = [(0, Rejected e)]
      \<and> isTransactionExpiredBlockheightExceededError e
      \<and> attempt f = 1 + 1)
   \<and> executeTransactions (scripted 50 (Inl expiredWithMarker) (Inr None)) [payment] 1 () =
     (Inr [Rejected expiredWithMarker], (),
      [GetLatestBlockhash (Inr (''hash'', 100)), GetBlockHeight (Inr 50),
       SendAndConfirmTransaction 0 (Inl expiredWithMarker),
       GetSignatureStatus ''5sig'' (Inr None), SetTimeout 1000,
       GetLatestBlockhash (Inr (''hash'', 100)), GetBlockHeight (Inr 50),
       SendAndConfirmTransaction 0 (Inl expiredWithMarker),
       GetSignatureStatus ''5sig'' (Inr None),
       ResultsPush 0 (Rejected expiredWithMarker)])"
proof -
  let ?conn = "scripted 50 (Inl expiredWithMarker) (Inr None)"
  have retries: "(0 :: int) \<le> 1" by simp
  have submit: "\<forall>w. \<exists>blockhash lastValid w1 height w2 e w3.
        getLatestBlockhash ?conn w = (Inr (blockhash, lastValid), w1)
      \<and> getBlockHeight ?conn w1 = (Inr height, w2)
      \<and> \<not> height > lastValid
      \<and> sendAndConfirmTransaction ?conn (payment\<lparr>recentBlockhash := Some blockhash\<rparr>) w2
          = (Inl e, w3)
      \<and> isTransactionExpiredBlockheightExceededError e"
    by (simp add: scripted_def expiredWithMarker_def)
  have lookup: "\<forall>sig w. \<exists>status w'.
        getSignatureStatus ?conn sig w = (Inr status, w') \<and> \<not> isFinalized status"
    by (simp add: scripted_def isFinalized_def)
  have run: "executeTransactions ?conn [payment] 1 () =
     (Inr [Rejected expiredWithMarker], (),
      [GetLatestBlockhash (Inr (''hash'', 100)), GetBlockHeight (Inr 50),
       SendAndConfirmTransaction 0 (Inl expiredWithMarker),
       GetSignatureStatus ''5sig'' (Inr None), SetTimeout 1000,
       GetLatestBlockhash (Inr (''hash'', 100)), GetBlockHeight (Inr 50),
       SendAndConfirmTransaction 0 (Inl expiredWithMarker),
       GetSignatureStatus ''5sig'' (Inr None),
       ResultsPush 0 (Rejected expiredWithMarker)])"
    by (simp add: run_defs whileLoop.simps expiredWithMarker_def)
  from expired_every_attempt_rejects [OF retries submit lookup, where i = 0 and r = start] run
  show ?thesis by simp
qed

text \<open>
  C6. In an attempt of the loop where the submission raises an error that is not the typed
  expiry error, whose message matches \<^verbatim>\<open>/Signature (\w+)/\<close> with the token
  \<open>errorSignature\<close>, and where the status lookup of this token reports \<open>finalized\<close>, the loop
  returns at once: the outcome pushed is \<open>Fulfilled errorSignature\<close>, the attempt counter is
  unchanged and nothing is submitted again.
\<close>

theorem reference_in_message_fulfils:
  assumes "attempt f \<le> maxRetries" and "\<not> success f"
    and "getLatestBlockhash conn (world f) = (Inr (blockhash, lastValid), w1)"
    and "getBlockHeight conn w1 = (Inr height, w2)"
    and "\<not> height > lastValid"
    and "sendAndConfirmTransaction conn ((transaction f)\<lparr>recentBlockhash := Some blockhash\<rparr>) w2
          = (Inl e, w3)"
    and "\<not> isTransactionExpiredBlockheightExceededError e"
    and "messageOf e = Some message"
    and "matchSignature message = Some errorSignature"
    and "getSignatureStatus conn errorSignature w3 = (Inr status, w4)"
    and "isFinalized status"
  shows "whileLoop conn maxRetries i f =
     Inr (f\<lparr>transaction := (transaction f)\<lparr>recentBlockhash := Some blockhash\<rparr>,
          success := True,
          world := w4,
          trace := trace f @ [GetLatestBlockhash (Inr (blockhash, lastValid)),
            GetBlockHeight (Inr height), SendAndConfirmTransaction i (Inl e),
            GetSignatureStatus errorSignature (Inr status),
            ResultsPush i (Fulfilled errorSignature)],
          results := results f @ [Fulfilled errorSignature]\<rparr>)"
proof -
  have ne: "errorSignature \<noteq> []"
    using assms(9) by (rule matchSignature_nonempty)
  have "whileBody conn maxRetries i f =
     Break (f\<lparr>transaction := (transaction f)\<lparr>recentBlockhash := Some blockhash\<rparr>,
          success := True,
          world := w4,
          trace := trace f @ [GetLatestBlockhash (Inr (blockhash, lastValid)),
            GetBlockHeight (Inr height), SendAndConfirmTransaction i (Inl e),
            GetSignatureStatus errorSignature (Inr status),
            ResultsPush i (Fulfilled errorSignature)],
          results := results f @ [Fulfilled errorSignature]\<rparr>)"
    using assms(7-11) ne
    by (simp add: whileBody_submission_thrown [OF assms(3-6)] catchBlock_def
        isErrorWithMessage_def truthy_def awaitGetSignatureStatus_def push_def)
  then show ?thesis
    using assms(1,2) by (simp add: whileLoop_step)
qed

theorem reference_in_message_fulfils_witness:
  "whileLoop (scripted 50 (Inl timedOut) (Inr landed)) 3 0 (enter start payment) =
     Inr \<lparr>world = (),
          trace = [GetLatestBlockhash (Inr (''hash'', 100)), GetBlockHeight (Inr 50),
            SendAndConfirmTransaction 0 (Inl timedOut),
            GetSignatureStatus ''5sig'' (Inr landed),
            ResultsPush 0 (Fulfilled ''5sig'')],
          results = [Fulfilled ''5sig''],
          transaction = payment\<lparr>recentBlockhash := Some ''hash''\<rparr>,
          attempt = 0, success = True, signature = None\<rparr>"
proof -
  let ?conn = "scripted 50 (Inl timedOut) (Inr landed)"
  let ?f = "enter start payment"
  have more: "attempt ?f \<le> 3" and going: "\<not> success ?f"
    by (simp_all add: enter_def)
  have glb: "getLatestBlockhash ?conn (world ?f) = (Inr (''hash'', 100), ())"
    and gbh: "getBlockHeight ?conn () = (Inr 50, ())"
    and fresh: "\<not> (50 :: int) > 100"
    and send: "sendAndConfirmTransaction ?conn ((transaction ?f)\<lparr>recentBlockhash := Some ''hash''\<rparr>) ()
        = (Inl timedOut, ())"
    and plain: "\<not> isTransactionExpiredBlockheightExceededError timedOut"
    and message: "messageOf timedOut = Some ''Signature 5sig has timed out''"
    and token: "matchSignature ''Signature 5sig has timed out'' = Some ''5sig''"
    and status: "getSignatureStatus ?conn ''5sig'' () = (Inr landed, ())"
    and final: "isFinalized landed"
    by (simp_all add: scripted_def timedOut_def landed_def isFinalized_def isWordChar_def)
  from reference_in_message_fulfils
    [OF more going glb gbh fresh send plain message token status final, where i = 0]
  show ?thesis by (simp add: enter_def start_def)
qed

text \<open>
  C7, as the code has it. With \<open>maxRetries \<ge> 0\<close>, on a network whose status lookups
  answer, \<open>executeTransactions\<close> returns: the outcomes are as many as the transactions; the
  transactions \<open>0, 1, \<dots>\<close> have been settled once each, in this order, and the list
  returned holds their outcomes in this order; every submission is of the transaction
  whose index is the number of outcomes pushed before it, so that a submission of the
  transaction \<open>j + 1\<close> comes after the push of the outcome of the transaction \<open>j\<close>.
\<close>

theorem executeTransactions_outcomes:
  assumes "0 \<le> maxRetries"
    and "\<forall>sig w. \<exists>status w'. getSignatureStatus conn sig w = (Inr status, w')"
  shows "\<exists>res w' tr. executeTransactions conn transactionList maxRetries w = (Inr res, w', tr)
    \<and> length res = length transactionList
    \<and> map fst (settled tr) = [0..<length transactionList]
    \<and> map snd (settled tr) = res
    \<and> inOrder 0 tr
    \<and> (\<forall>p j x. p < length tr \<and> tr ! p = SendAndConfirmTransaction (Suc j) x
          \<longrightarrow> (\<exists>q<p. \<exists>out. tr ! q = ResultsPush j out))"
proof -
  let ?r = "\<lparr>world = w, trace = [], results = []\<rparr>"
  from forLoop_returns [OF assms(2)] obtain r' where
    run: "forLoop conn maxRetries (length transactionList) 0 transactionList ?r = Inr r'"
    by blast
  then have out: "executeTransactions conn transactionList maxRetries w
      = (Inr (results r'), world r', trace r')"
    by (simp add: executeTransactions_def)
  have "wellTraced 0 ?r" by (simp add: wellTraced_def)
  from forLoop_wellTraced [OF assms(1) this run] have wt: "wellTraced (length transactionList) r'"
    by simp
  then have a: "map fst (settled (trace r')) = [0..<length transactionList]"
    and b: "map snd (settled (trace r')) = results r'" and c: "inOrder 0 (trace r')"
    by (simp_all add: wellTraced_def)
  have "length (results r') = length (settled (trace r'))" using b by (metis length_map)
  also have "\<dots> = length transactionList"
    using a by (metis length_map length_upt minus_nat.diff_0)
  finally have d: "length (results r') = length transactionList" .
  from out a b c d inOrder_precedes [OF c] show ?thesis by blast
qed

theorem executeTransactions_outcomes_witness:
  "(0 :: int) \<le> 3
   \<and> executeTransactions (scripted 50 (Inr ''5sig'') (Inr None)) [payment, payment] 3 () =
     (Inr [Fulfilled ''5sig'', Fulfilled ''5sig''], (),
      [GetLatestBlockhash (Inr (''hash'', 100)), GetBlockHeight (Inr 50),
       SendAndConfirmTransaction 0 (Inr ''5sig''), ResultsPush 0 (Fulfilled ''5sig''),
       SetTimeout 1000,
       GetLatestBlockhash (Inr (''hash'', 100)), GetBlockHeight (Inr 50),
       SendAndConfirmTransaction 1 (Inr ''5sig''), ResultsPush 1 (Fulfilled ''5sig'')])
   \<and> length [Fulfilled ''5sig'', Fulfilled ''5sig''] = length [payment, payment]"
proof -
  have retries: "(0 :: int) \<le> 3" by simp
  have run: "executeTransactions (scripted 50 (Inr ''5sig'') (Inr None)) [payment, payment] 3 () =
     (Inr [Fulfilled ''5sig'', Fulfilled ''5sig''], (),
      [GetLatestBlockhash (Inr (''hash'', 100)), GetBlockHeight (Inr 50),
       SendAndConfirmTransaction 0 (Inr ''5sig''), ResultsPush 0 (Fulfilled ''5sig''),
       SetTimeout 1000,
       GetLatestBlockhash (Inr (''hash'', 100)), GetBlockHeight (Inr 50),
       SendAndConfirmTransaction 1 (Inr ''5sig''), ResultsPush 1 (Fulfilled ''5sig'')])"
    by (simp add: run_defs whileLoop.simps)
  have answers: "\<forall>sig w. \<exists>status w'.
      getSignatureStatus (scripted 50 (Inr ''5sig'') (Inr None)) sig w = (Inr status, w')"
    by (simp add: scripted_def)
  from executeTransactions_outcomes [OF retries answers, where transactionList = "[payment, payment]"
      and w = "()"] retries run
  show ?thesis by simp
qed

text \<open>
  C7, as the claim states it, fails: with \<open>maxRetries = -1\<close> the loop of a transaction is
  not entered, and the run of one transaction returns no outcome.
\<close>

theorem negative_maxRetries_settles_nothing:
  "executeTransactions (scripted 50 (Inr ''5sig'') (Inr None)) [payment] (- 1) () = (Inr [], (), [])"
  by (simp add: run_defs whileLoop.simps)

text \<open>
  C8. With \<open>maxRetries \<ge> 0\<close>, when in the first attempt of a transaction the blockhash and
  the height are fetched, the height does not exceed the expiry height and the submission
  returns \<open>sig\<close>, the run goes on to the next transaction with the outcome
  \<open>Fulfilled sig\<close> pushed, after these three calls only: no status lookup is made.
\<close>

theorem first_submission_fulfils:
  assumes "0 \<le> maxRetries"
    and "getLatestBlockhash conn (world r) = (Inr (blockhash, lastValid), w1)"
    and "getBlockHeight conn w1 = (Inr height, w2)"
    and "\<not> height > lastValid"
    and "sendAndConfirmTransaction conn (tx\<lparr>recentBlockhash := Some blockhash\<rparr>) w2
          = (Inr sig, w3)"
  shows "forLoop conn maxRetries len i (tx # rest) r =
     forLoop conn maxRetries len (i + 1) rest
       (if int i < int len - 1
        then delay conn TX_INTERVAL
          \<lparr>world = w3,
           trace = trace r @ [GetLatestBlockhash (Inr (blockhash, lastValid)),
             GetBlockHeight (Inr height), SendAndConfirmTransaction i (Inr sig),
             ResultsPush i (Fulfilled sig)],
           results = results r @ [Fulfilled sig]\<rparr>
        else
          \<lparr>world = w3,
           trace = trace r @ [GetLatestBlockhash (Inr (blockhash, lastValid)),
             GetBlockHeight (Inr height), SendAndConfirmTransaction i (Inr sig),
             ResultsPush i (Fulfilled sig)],
           results = results r @ [Fulfilled sig]\<rparr>)
   \<and> lookups [GetLatestBlockhash (Inr (blockhash, lastValid)),
        GetBlockHeight (Inr height), SendAndConfirmTransaction i (Inr sig),
        ResultsPush i (Fulfilled sig)] = []"
proof -
  let ?f = "enter r tx"
  have body: "whileBody conn maxRetries i ?f =
     Normal (?f\<lparr>world := w3,
        trace := trace ?f @ [GetLatestBlockhash (Inr (blockhash, lastValid)),
          GetBlockHeight (Inr height), SendAndConfirmTransaction i (Inr sig),
          ResultsPush i (Fulfilled sig)],
        results := results ?f @ [Fulfilled sig],
        transaction := (transaction ?f)\<lparr>recentBlockhash := Some blockhash\<rparr>,
        success := True, signature := Some sig\<rparr>)"
    using assms(2-5) by (intro whileBody_submitted) (simp_all add: enter_def)
  have "whileLoop conn maxRetries i ?f =
     Inr (?f\<lparr>world := w3,
        trace := trace ?f @ [GetLatestBlockhash (Inr (blockhash, lastValid)),
          GetBlockHeight (Inr height), SendAndConfirmTransaction i (Inr sig),
          ResultsPush i (Fulfilled sig)],
        results := results ?f @ [Fulfilled sig],
        transaction := (transaction ?f)\<lparr>recentBlockhash := Some blockhash\<rparr>,
        success := True, signature := Some sig\<rparr>)"
  proof -
    have "attempt ?f \<le> maxRetries" and "\<not> success ?f"
      using assms(1) by (simp_all add: enter_def)
    from whileLoop_step [OF this] show ?thesis
      by (simp add: body whileLoop_done)
  qed
  then show ?thesis
    by (simp add: leave_def enter_def)
qed

theorem first_submission_fulfils_witness:
  "(0 :: int) \<le> 3
   \<and> forLoop (scripted 50 (Inr ''5sig'') (Inr None)) 3 1 0 [payment] start =
     Inr \<lparr>world = (),
          trace = [GetLatestBlockhash (Inr (''hash'', 100)), GetBlockHeight (Inr 50),
            SendAndConfirmTransaction 0 (Inr ''5sig''), ResultsPush 0 (Fulfilled ''5sig'')],
          results = [Fulfilled ''5sig'']\<rparr>"
proof -
  let ?conn = "scripted 50 (Inr ''5sig'') (Inr None)"
  have retries: "(0 :: int) \<le> 3" by simp
  have glb: "getLatestBlockhash ?conn (world start) = (Inr (''hash'', 100), ())"
    and gbh: "getBlockHeight ?conn () = (Inr 50, ())"
    and fresh: "\<not> (50 :: int) > 100"
    and send: "sendAndConfirmTransaction ?conn (payment\<lparr>recentBlockhash := Some ''hash''\<rparr>) ()
        = (Inr ''5sig'', ())"
    by (simp_all add: scripted_def)
  from first_submission_fulfils [OF retries glb gbh fresh send, where len = 1 and i = 0
      and rest = "[]"] retries
  show ?thesis by (simp add: start_def)
qed

text \<open>
  C9. In an attempt where the blockhash and the height are fetched and the height exceeds
  the expiry height, the body of the loop ends normally with the attempt counted; the
  calls of the attempt are the two fetches, followed by the delay before the next attempt
  or, when the attempts are exhausted, by the push of \<open>Rejected\<close> with the local expiry
  error: there is no submission and no status lookup.
\<close>

theorem local_expiry_skips_submission:
  assumes "getLatestBlockhash conn (world f) = (Inr (blockhash, lastValid), w1)"
    and "getBlockHeight conn w1 = (Inr height, w2)"
    and "height > lastValid"
  shows "\<exists>f1. whileBody conn maxRetries i f = Normal f1
    \<and> attempt f1 = attempt f + 1
    \<and> success f1 = success f
    \<and> trace f1 = trace f @
        [GetLatestBlockhash (Inr (blockhash, lastValid)), GetBlockHeight (Inr height),
         if attempt f + 1 > maxRetries
         then ResultsPush i (Rejected (expiredError i height lastValid))
         else SetTimeout TX_INTERVAL]
    \<and> results f1 = results f @
        (if attempt f + 1 > maxRetries then [Rejected (expiredError i height lastValid)] else [])
    \<and> submissions (drop (length (trace f)) (trace f1)) = []
    \<and> lookups (drop (length (trace f)) (trace f1)) = []"
  by (simp add: whileBody_local_expiry [OF assms] countAttempt_fields)

theorem local_expiry_skips_submission_witness:
  "\<exists>f1. whileBody (scripted 150 (Inr ''5sig'') (Inr None)) 3 0 (enter start payment) = Normal f1
    \<and> attempt f1 = 1
    \<and> success f1 = False
    \<and> trace f1 = [GetLatestBlockhash (Inr (''hash'', 100)), GetBlockHeight (Inr 150), SetTimeout 1000]
    \<and> results f1 = []"
proof -
  let ?conn = "scripted 150 (Inr ''5sig'') (Inr None)"
  have glb: "getLatestBlockhash ?conn (world (enter start payment)) = (Inr (''hash'', 100), ())"
    and gbh: "getBlockHeight ?conn () = (Inr 150, ())"
    and stale: "(150 :: int) > 100"
    by (simp_all add: scripted_def)
  from local_expiry_skips_submission [OF glb gbh stale, where maxRetries = 3 and i = 0]
  show ?thesis by (auto simp: enter_def start_def TX_INTERVAL_def)
qed

end
